theory Spec2Isabelle
  imports Complex_Main "HOL-Library.Word"
begin

section \<open>Errors\<close>

text \<open>
  Every exception the modelled Python raises is a value of \<open>error\<close>; a function that can
  raise returns \<open>error + 'a\<close> with \<open>Inl\<close> for the exception. The constructors name the
  \<^verbatim>\<open>raise\<close> statements of the source (by their message) and the exceptions of the
  Python runtime, numpy and pandas that the modelled statements can trigger.
\<close>

datatype error =
    Truncated            \<comment> \<open>ValueError('The LD matrix has been truncated')\<close>
  | NothingInList        \<comment> \<open>ValueError('There is nothing in the ld list')\<close>
  | MergeOrder           \<comment> \<open>ValueError('Can only merge LD matrices in order (chr1, chr2, ...)')\<close>
  | ChrsNotSorted        \<comment> \<open>ValueError('The chrs in the LD matrix are not sorted')\<close>
  | WrongDimension       \<comment> \<open>ValueError('The block has wrong dimension (data may have been truncated)')\<close>
  | TruncateFirst        \<comment> \<open>ValueError('Truncate the LD matrix first then estimate LD scores')\<close>
  | Mislabeled string    \<comment> \<open>ValueError('median value of <effect> is ... This column may be mislabeled')\<close>
  | BedSuffix            \<comment> \<open>ValueError('.bed filename must end in .bed')\<close>
  | BadMagic             \<comment> \<open>IOError('Magic number from PLINK .bed file not recognized')\<close>
  | BadMode              \<comment> \<open>IOError('Plink .bed file must be in default SNP-major mode')\<close>
  | BadLength nat nat    \<comment> \<open>IOError('Plink .bed file has <real_len> bits, expected <exp_len>')\<close>
  | NoMoreSNPs           \<comment> \<open>ValueError('No more SNPs remaining')\<close>
  | DecodeError          \<comment> \<open>bitarray: ValueError, the bits are no sequence of code words\<close>
  | ShapeMismatch        \<comment> \<open>numpy: ValueError, shapes cannot be broadcast together\<close>
  | IndexError           \<comment> \<open>index out of range (list, numpy array or pandas index)\<close>
  | KeyError             \<comment> \<open>pandas: the key is no column of the table\<close>
  | FileNotFound         \<comment> \<open>the file of a prefix does not exist\<close>
  | EOFError             \<comment> \<open>bitarray.fromfile: fewer bytes in the file than asked for\<close>
  | LinAlgError          \<comment> \<open>numpy.linalg.eigh did not converge\<close>
  | ZeroDivisionError    \<comment> \<open>division of a Python number by zero\<close>

section \<open>GWAS pruning: the strand-ambiguity filter\<close>

text \<open>
  \<^verbatim>\<open>complement = {'A': 'T', 'T': 'A', 'C': 'G', 'G': 'C'}\<close> (\<^verbatim>\<open>GWAS.complement\<close> in
  heig/sumstats.py, \<^verbatim>\<open>COMPLEMENT\<close> in heri_gc.py): a dictionary from strings to strings.
\<close>

definition complement :: "string \<rightharpoonup> string" where
  "complement = [''A'' \<mapsto> ''T'', ''T'' \<mapsto> ''A'', ''C'' \<mapsto> ''G'', ''G'' \<mapsto> ''C'']"

text \<open>
  One element of the list comprehension of \<^verbatim>\<open>_prune_snps\<close> (the same expression in both
  files), for the alleles \<^verbatim>\<open>a2_\<close> and \<^verbatim>\<open>a1_\<close> of a row:
  \<^verbatim>\<open>True if len(a2_) == 1 and len(a1_) == 1 and a2_ in complement and a1_ in complement
    and complement[a2_] != a1_ else False\<close>.
  The dictionary is read only after the membership tests, so the lookup never raises.
\<close>

definition not_strand_ambiguous :: "string \<Rightarrow> string \<Rightarrow> bool" where
  "not_strand_ambiguous a2 a1 =
     (if length a2 = 1 \<and> length a1 = 1 \<and> a2 \<in> dom complement \<and> a1 \<in> dom complement \<and>
         complement a2 \<noteq> Some a1
      then True else False)"

text \<open>The columns of a summary-statistics row that the filter reads; other columns are the
  extension of the record.\<close>

record gwas_row =
  SNP :: string
  A1 :: string
  A2 :: string

text \<open>\<^verbatim>\<open>gwas = gwas.loc[not_strand_ambiguous]\<close>: the rows whose flag is True, in order.\<close>

definition prune_strand :: "'a gwas_row_scheme list \<Rightarrow> 'a gwas_row_scheme list" where
  "prune_strand gwas =
     map fst (filter snd (zip gwas (map (\<lambda>r. not_strand_ambiguous (A2 r) (A1 r)) gwas)))"

text \<open>The rule in the words of the specification: both alleles are single characters of
  the complement map and the complement of A1 is not A2.\<close>

definition spec_keeps :: "string \<Rightarrow> string \<Rightarrow> bool" where
  "spec_keeps a1 a2 =
     (length a1 = 1 \<and> length a2 = 1 \<and> a1 \<in> dom complement \<and> a2 \<in> dom complement \<and>
      complement a1 \<noteq> Some a2)"

section \<open>GWAS preprocessing: the median check of the effect column\<close>

text \<open>
  A column of floats is a list of \<open>real option\<close>, \<open>None\<close> for not-a-number.
  \<^verbatim>\<open>np.nanmedian(data)\<close>: the median of the entries that are numbers (the middle one of the
  sorted entries, or the mean of the two middle ones), not-a-number when there is none.
\<close>

definition nanmedian :: "real option list \<Rightarrow> real option" where
  "nanmedian data =
     (let xs = sort (concat (map (\<lambda>v. case v of None \<Rightarrow> [] | Some x \<Rightarrow> [x]) data));
          n = length xs
      in if n = 0 then None
         else if n mod 2 = 1 then Some (xs ! (n div 2))
         else Some ((xs ! (n div 2 - 1) + xs ! (n div 2)) / 2))"

text \<open>
  \<^verbatim>\<open>GWAS._check_median(data, effect, null_value)\<close>:
  \<^verbatim>\<open>if np.abs(median_beta - null_value > 0.1): raise ValueError(...)\<close>.
  The comparison \<^verbatim>\<open>median_beta - null_value > 0.1\<close> is inside the call of \<^verbatim>\<open>np.abs\<close>:
  the absolute value is taken of its Boolean result (True is 1, False is 0), and the
  condition holds exactly when the comparison does. A comparison with not-a-number is
  False. Without an error the function logs a line and returns nothing.
\<close>

definition np_abs_bool :: "bool \<Rightarrow> nat" where
  "np_abs_bool b = (if b then 1 else 0)"

definition check_median :: "real option list \<Rightarrow> string \<Rightarrow> real \<Rightarrow> error + unit" where
  "check_median data effect null_value =
     (let median_beta = nanmedian data
      in if np_abs_bool (case median_beta of None \<Rightarrow> False
                         | Some md \<Rightarrow> md - null_value > 0.1) \<noteq> 0
         then Inl (Mislabeled effect)
         else Inr ())"

section \<open>LD scores: the block-merge plan\<close>

text \<open>
  The loop of \<^verbatim>\<open>LDmatrix._merge_blocks\<close> over \<^verbatim>\<open>enumerate(block_sizes)\<close>, with its
  state \<^verbatim>\<open>cur_size\<close>, \<^verbatim>\<open>cur_group\<close>, \<^verbatim>\<open>merged_blocks\<close>. \<^verbatim>\<open>mean_size\<close> is the true
  quotient \<^verbatim>\<open>sum(block_sizes) / 200\<close>, \<^verbatim>\<open>block_size // 2\<close> the floor division.
\<close>

fun merge_blocks_loop ::
  "nat \<Rightarrow> real \<Rightarrow> nat \<Rightarrow> int list \<Rightarrow> int \<Rightarrow> nat list \<Rightarrow> nat list list \<Rightarrow> nat list list" where
  "merge_blocks_loop n_blocks mean_size i [] cur_size cur_group merged_blocks = merged_blocks"
| "merge_blocks_loop n_blocks mean_size i (block_size # rest) cur_size cur_group merged_blocks =
     (if int i < int n_blocks - 1 then
        (if real_of_int (cur_size + block_size) \<le> mean_size \<or>
            real_of_int (cur_size + block_size div 2) \<le> mean_size
         then merge_blocks_loop n_blocks mean_size (i + 1) rest
                (cur_size + block_size) (cur_group @ [i]) merged_blocks
         else merge_blocks_loop n_blocks mean_size (i + 1) rest
                block_size [i] (merged_blocks @ [cur_group]))
      else
        (if real_of_int (cur_size + block_size) \<le> mean_size \<or>
            real_of_int (cur_size + block_size div 2) \<le> mean_size
         then merge_blocks_loop n_blocks mean_size (i + 1) rest
                cur_size (cur_group @ [i]) (merged_blocks @ [cur_group @ [i]])
         else merge_blocks_loop n_blocks mean_size (i + 1) rest
                cur_size cur_group (merged_blocks @ [[i]])))"

definition merge_blocks :: "int list \<Rightarrow> nat list list" where
  "merge_blocks block_sizes =
     merge_blocks_loop (length block_sizes) (real_of_int (sum_list block_sizes) / 200) 0
       block_sizes 0 [] []"

section \<open>Heritability: standard error, leave-one-block-out estimates, jackknife\<close>

text \<open>
  Floating-point numbers are modelled by real numbers, so rounding and overflow are not
  represented. A float that is not a finite number (not-a-number, an infinity) is \<open>None\<close>
  in a \<open>real option\<close>: numpy divides by zero and takes the square root of a negative
  number without raising, and an arithmetic operation on such a value gives such a value.
\<close>

definition np_div :: "real \<Rightarrow> real \<Rightarrow> real option" where
  "np_div x y = (if y = 0 then None else Some (x / y))"

definition np_add :: "real option \<Rightarrow> real option \<Rightarrow> real option" where
  "np_add a b = (case a of None \<Rightarrow> None | Some x \<Rightarrow> (case b of None \<Rightarrow> None | Some y \<Rightarrow> Some (x + y)))"

definition np_sqrt :: "real \<Rightarrow> real option" where
  "np_sqrt x = (if x < 0 then None else Some (sqrt x))"

text \<open>
  \<^verbatim>\<open>Estimation._get_heri_se(heri, d, n)\<close>, \<^verbatim>\<open>heri\<close> a vector and \<^verbatim>\<open>d\<close>, \<^verbatim>\<open>n\<close> numpy
  floats:
  \<^verbatim>\<open>part1 = 2 * d / n ** 2; part2 = 2 * heri / n; part3 = 2 * heri * (1 - heri) / n;
  res = part1 + part2 + part3; res[np.abs(res) < 10 ** -10] = 0; return np.sqrt(res)\<close>.
  The comparison of the mask is False for a value that is not a finite number.
\<close>

definition get_heri_se :: "real list \<Rightarrow> real \<Rightarrow> real \<Rightarrow> real option list" where
  "get_heri_se heri d n =
     (let part1 = np_div (2 * d) (n ^ 2);
          part2 = map (\<lambda>h. np_div (2 * h) n) heri;
          part3 = map (\<lambda>h. np_div (2 * h * (1 - h)) n) heri;
          res = map (\<lambda>(p2, p3). np_add (np_add part1 p2) p3) (zip part2 part3);
          res = map (\<lambda>r. case r of None \<Rightarrow> None
                          | Some x \<Rightarrow> if \<bar>x\<bar> < 1 / 10 ^ 10 then Some 0 else Some x) res
      in map (\<lambda>r. case r of None \<Rightarrow> None | Some x \<Rightarrow> np_sqrt x) res)"

text \<open>The value the specification gives for one entry \<open>h\<close>: the sum, replaced by 0 when
  its absolute value is below \<open>1e-10\<close>, under the square root.\<close>

definition spec_heri_se :: "real \<Rightarrow> real \<Rightarrow> real \<Rightarrow> real option" where
  "spec_heri_se h d n =
     (let s = 2 * d / n\<^sup>2 + 2 * h / n + 2 * h * (1 - h) / n
      in np_sqrt (if \<bar>s\<bar> < 1 / 10 ^ 10 then 0 else s))"

text \<open>
  \<^verbatim>\<open>lobo_est_i -= block_est[ii]\<close>: the in-place subtraction of numpy. The right operand
  has the shape of the left one or is a single number, else numpy raises.
\<close>

definition isub :: "real list \<Rightarrow> real list \<Rightarrow> error + real list" where
  "isub acc b =
     (if length b = length acc then Inr (map (\<lambda>(x, y). x - y) (zip acc b))
      else if length b = 1 then Inr (map (\<lambda>x. x - hd b) acc)
      else Inl ShapeMismatch)"

text \<open>The inner loop of \<^verbatim>\<open>TwoSample._lobo_estimate\<close>: \<^verbatim>\<open>for ii in blocks\<close>. An array is
  the list of its entries, a matrix the list of its rows.\<close>

fun lobo_sub :: "real list \<Rightarrow> real list list \<Rightarrow> nat list \<Rightarrow> error + real list" where
  "lobo_sub lobo_est_i block_est [] = Inr lobo_est_i"
| "lobo_sub lobo_est_i block_est (ii # blocks) =
     (if ii < length block_est then
        (case isub lobo_est_i (block_est ! ii) of
           Inl e \<Rightarrow> Inl e
         | Inr v \<Rightarrow> lobo_sub v block_est blocks)
      else Inl IndexError)"

text \<open>\<^verbatim>\<open>TwoSample._lobo_estimate(total_est, block_est, merged_blocks)\<close>: one row per merged
  block, the total estimate minus the estimates of the blocks of the group.\<close>

fun lobo_estimate :: "real list \<Rightarrow> real list list \<Rightarrow> nat list list \<Rightarrow> error + real list list" where
  "lobo_estimate total_est block_est [] = Inr []"
| "lobo_estimate total_est block_est (blocks # merged_blocks) =
     (case lobo_sub total_est block_est blocks of
        Inl e \<Rightarrow> Inl e
      | Inr lobo_est_i \<Rightarrow>
          (case lobo_estimate total_est block_est merged_blocks of
             Inl e \<Rightarrow> Inl e
           | Inr lobo_est \<Rightarrow> Inr (lobo_est_i # lobo_est)))"

text \<open>\<^verbatim>\<open>np.mean(lobo, axis=0)\<close> for a matrix with at least one row: the column means.\<close>

definition np_mean_axis0 :: "real list list \<Rightarrow> real list" where
  "np_mean_axis0 lobo =
     map (\<lambda>j. sum_list (map (\<lambda>row. row ! j) lobo) / real (length lobo)) [0..<length (hd lobo)]"

text \<open>The broadcast of numpy for two vectors: equal lengths, or one of them a single number.\<close>

definition broadcast2 :: "(real \<Rightarrow> real \<Rightarrow> real) \<Rightarrow> real list \<Rightarrow> real list \<Rightarrow> error + real list" where
  "broadcast2 f xs ys =
     (if length xs = length ys then Inr (map (\<lambda>(x, y). f x y) (zip xs ys))
      else if length xs = 1 then Inr (map (\<lambda>y. f (hd xs) y) ys)
      else if length ys = 1 then Inr (map (\<lambda>x. f x (hd ys)) xs)
      else Inl ShapeMismatch)"

text \<open>
  \<^verbatim>\<open>TwoSample._jackknife(total, lobo, n_blocks)\<close>:
  \<^verbatim>\<open>mean_lobo = np.mean(lobo, axis=0);
  estimate = n_blocks * total - (n_blocks - 1) * mean_lobo;
  se = np.sqrt((n_blocks - 1) / n_blocks * np.sum((lobo - mean_lobo) ** 2, axis=0))\<close>.
  \<^verbatim>\<open>n_blocks\<close> is a Python integer, so the quotient \<^verbatim>\<open>(n_blocks - 1) / n_blocks\<close> raises
  for 0. Of a matrix without rows the mean is not-a-number and the sum is the number 0.
  The final \<^verbatim>\<open>np.squeeze\<close> only drops axes of length one; a number and a vector of
  length one are the same list here.
\<close>

definition jackknife ::
  "real list \<Rightarrow> real list list \<Rightarrow> nat \<Rightarrow> error + (real option list \<times> real option list)" where
  "jackknife tot lobo n_blocks =
     (if lobo = [] then
        (if n_blocks = 0 then Inl ZeroDivisionError
         else Inr (replicate (length tot) None, [Some 0]))
      else
        (let mean_lobo = np_mean_axis0 lobo in
         case broadcast2 (\<lambda>t m. real n_blocks * t - (real n_blocks - 1) * m) tot mean_lobo of
           Inl e \<Rightarrow> Inl e
         | Inr estimate \<Rightarrow>
             if n_blocks = 0 then Inl ZeroDivisionError
             else Inr (map Some estimate,
                       map (\<lambda>j. np_sqrt ((real n_blocks - 1) / real n_blocks *
                                   sum_list (map (\<lambda>row. (row ! j - mean_lobo ! j)\<^sup>2) lobo)))
                         [0..<length mean_lobo])))"

text \<open>The composition the jackknife consistency property is about: the leave-one-block-out
  rows of \<^verbatim>\<open>_lobo_estimate\<close> handed to \<^verbatim>\<open>_jackknife\<close> with the number of merged blocks.\<close>

definition jackknife_lobo ::
  "real list \<Rightarrow> real list list \<Rightarrow> nat list list \<Rightarrow> error + (real option list \<times> real option list)" where
  "jackknife_lobo tot block_est merged_blocks =
     (case lobo_estimate tot block_est merged_blocks of
        Inl e \<Rightarrow> Inl e
      | Inr lobo \<Rightarrow> jackknife tot lobo (length merged_blocks))"


section \<open>PLINK .bed files\<close>

text \<open>
  A \<^verbatim>\<open>bitarray\<close> is the list of its bits. \<^verbatim>\<open>bitarray(endian='little').fromfile(fh, k)\<close>
  appends the bits of the next bytes of the file, of each byte the least significant bit
  first. \<^verbatim>\<open>ba.bitarray('0011...')\<close> is the bits a string of 0 and 1 spells.
\<close>

type_synonym byte = "8 word"

definition byte_bits :: "byte \<Rightarrow> bool list" where
  "byte_bits w = map (bit w) [0..<8]"

definition fromfile :: "byte list \<Rightarrow> bool list" where
  "fromfile bytes = concat (map byte_bits bytes)"

definition bitarray :: "string \<Rightarrow> bool list" where
  "bitarray str = map (\<lambda>c. c = CHR ''1'') str"

definition endswith :: "string \<Rightarrow> string \<Rightarrow> bool" where
  "endswith str suffix =
     (length suffix \<le> length str \<and> drop (length str - length suffix) str = suffix)"

text \<open>The Python slice \<^verbatim>\<open>xs[i:j]\<close> for indices that are not negative: it never raises and
  stops at the end of the list.\<close>

definition py_slice :: "'a list \<Rightarrow> nat \<Rightarrow> nat \<Rightarrow> 'a list" where
  "py_slice xs i j = take (j - i) (drop i xs)"

text \<open>
  A dosage is a float: 0, 1, 2 or not-a-number (\<open>None\<close>). The code table
  \<^verbatim>\<open>_bedcode = {2: bitarray('11'), nan: bitarray('10'), 1: bitarray('01'), 0: bitarray('00')}\<close>
  assigns a value to each of the four words of two bits, so \<^verbatim>\<open>slice.decode(_bedcode)\<close>
  reads two bits at a time and raises only for a single bit left over.
\<close>

type_synonym dosage = "real option"

definition bedcode :: "bool \<Rightarrow> bool \<Rightarrow> dosage" where
  "bedcode b1 b2 =
     (if b1 \<and> b2 then Some 2 else if b1 \<and> \<not> b2 then None
      else if \<not> b1 \<and> b2 then Some 1 else Some 0)"

fun decode :: "bool list \<Rightarrow> error + dosage list" where
  "decode [] = Inr []"
| "decode [b] = Inl DecodeError"
| "decode (b1 # b2 # bits) =
     (case decode bits of Inl e \<Rightarrow> Inl e | Inr vs \<Rightarrow> Inr (bedcode b1 b2 # vs))"

text \<open>The object \<^verbatim>\<open>PlinkBEDFile\<close>: \<^verbatim>\<open>self.m\<close> (the number of SNPs, \<open>bed_m\<close>),
  \<^verbatim>\<open>self.n\<close> (the number of samples, \<open>bed_n\<close>), \<^verbatim>\<open>self._currentSNP\<close>, \<^verbatim>\<open>self.nru\<close>,
  \<^verbatim>\<open>self.geno\<close>.\<close>

record bed =
  bed_m :: nat
  bed_n :: nat
  currentSNP :: nat
  nru :: nat
  geno :: "bool list"

text \<open>\<^verbatim>\<open>__test_length__(geno, m, nru)\<close>.\<close>

definition test_length :: "bool list \<Rightarrow> nat \<Rightarrow> nat \<Rightarrow> error + unit" where
  "test_length gen m_snps n_ru =
     (let exp_len = 2 * m_snps * n_ru; real_len = length gen
      in if real_len \<noteq> exp_len then Inl (BadLength real_len exp_len) else Inr ())"

text \<open>
  \<^verbatim>\<open>PlinkBEDFile.__read__(fname, m, n)\<close> on the bytes of the opened file: two bytes of
  magic number, one byte of mode, the rest the genotypes. The checks of the header come
  after both reads, as in the source.
\<close>

definition bed_read :: "string \<Rightarrow> byte list \<Rightarrow> nat \<Rightarrow> nat \<Rightarrow> error + (nat \<times> bool list)" where
  "bed_read fname file m_snps n_samples =
     (if \<not> endswith fname ''.bed'' then Inl BedSuffix
      else if length file < 2 then Inl EOFError
      else if length file < 3 then Inl EOFError
      else
        (let magicNumber = fromfile (take 2 file);
             bedMode = fromfile (take 1 (drop 2 file));
             e = (if n_samples mod 4 \<noteq> 0 then 4 - n_samples mod 4 else 0);
             n_ru = n_samples + e
         in if magicNumber \<noteq> bitarray ''0011011011011000'' then Inl BadMagic
            else if bedMode \<noteq> bitarray ''10000000'' then Inl BadMode
            else
              (let gen = fromfile (drop 3 file)
               in case test_length gen m_snps n_ru of
                    Inl err \<Rightarrow> Inl err
                  | Inr _ \<Rightarrow> Inr (n_ru, gen))))"

text \<open>\<^verbatim>\<open>PlinkBEDFile(fname, n, snp_list)\<close>: \<^verbatim>\<open>m = len(snp_list.IDList)\<close>, the cursor at 0.\<close>

definition PlinkBEDFile :: "string \<Rightarrow> byte list \<Rightarrow> nat \<Rightarrow> 'a list \<Rightarrow> error + bed" where
  "PlinkBEDFile fname file n_samples snp_list =
     (case bed_read fname file (length snp_list) n_samples of
        Inl err \<Rightarrow> Inl err
      | Inr (n_ru, gen) \<Rightarrow>
          Inr \<lparr>bed_m = length snp_list, bed_n = n_samples, currentSNP = 0, nru = n_ru, geno = gen\<rparr>)"

text \<open>\<^verbatim>\<open>snps[:, i] = X\<close>: the column takes a vector of its length, or one number for all
  its entries; numpy raises for any other length.\<close>

definition assign_column :: "nat \<Rightarrow> 'a list \<Rightarrow> error + 'a list" where
  "assign_column len X =
     (if length X = len then Inr X
      else if length X = 1 then Inr (replicate len (hd X))
      else Inl ShapeMismatch)"

text \<open>
  The loop of \<^verbatim>\<open>nextSNPs(num)\<close>. The matrix \<^verbatim>\<open>snps\<close> of \<open>n\<close> rows is the list of its
  columns filled so far, so appending a list of columns is the horizontal concatenation.
  The object is returned with the result: an error leaves the cursor where the loop was.
\<close>

fun nextSNPs_loop :: "bed \<Rightarrow> nat \<Rightarrow> dosage list list \<Rightarrow> (error + dosage list list) \<times> bed" where
  "nextSNPs_loop self 0 snps = (Inr snps, self)"
| "nextSNPs_loop self (Suc k) snps =
     (if currentSNP self + 1 > bed_m self then (Inl NoMoreSNPs, self)
      else
        (let slice = py_slice (geno self) (2 * currentSNP self * nru self)
                       (2 * (currentSNP self + 1) * nru self)
         in case decode slice of
              Inl err \<Rightarrow> (Inl err, self)
            | Inr X \<Rightarrow>
                (case assign_column (bed_n self) (py_slice X 0 (bed_n self)) of
                   Inl err \<Rightarrow> (Inl err, self)
                 | Inr col \<Rightarrow>
                     nextSNPs_loop (self\<lparr>currentSNP := currentSNP self + 1\<rparr>) k (snps @ [col]))))"

definition nextSNPs :: "bed \<Rightarrow> nat \<Rightarrow> (error + dosage list list) \<times> bed" where
  "nextSNPs self num = nextSNPs_loop self num []"

text \<open>
  What construction establishes and \<^verbatim>\<open>nextSNPs\<close> keeps: the padded row length is the
  number of samples rounded up to a multiple of 4, the genotypes are \<open>2 * m * nru\<close>
  bits, the cursor is at most \<open>m\<close>.
\<close>

definition bed_valid :: "bed \<Rightarrow> bool" where
  "bed_valid self =
     (nru self = bed_n self + (if bed_n self mod 4 \<noteq> 0 then 4 - bed_n self mod 4 else 0) \<and>
      length (geno self) = 2 * bed_m self * nru self \<and>
      currentSNP self \<le> bed_m self)"

text \<open>
  The encoder of the round-trip property, in the words of the specification: each genotype
  becomes its two-bit code (00 for 0, 01 for 1, 11 for 2, 10 for missing), each SNP is
  padded with 00 to a multiple of 4 samples, the bits follow the magic number
  \<open>0011011011011000\<close> and the mode \<open>10000000\<close> of SNP-major files, and every 8 bits
  are one byte, the first bit the least significant.
\<close>

definition encode_geno :: "dosage \<Rightarrow> bool list" where
  "encode_geno g =
     (if g = Some 0 then [False, False] else if g = Some 1 then [False, True]
      else if g = Some 2 then [True, True] else [True, False])"

definition encode_snp :: "dosage list \<Rightarrow> bool list" where
  "encode_snp col =
     concat (map encode_geno col) @
     replicate (2 * (if length col mod 4 \<noteq> 0 then 4 - length col mod 4 else 0)) False"

definition pack_byte :: "bool list \<Rightarrow> byte" where
  "pack_byte bits = horner_sum of_bool 2 bits"

definition pack_bits :: "bool list \<Rightarrow> byte list" where
  "pack_bits bits =
     map (\<lambda>i. pack_byte (take 8 (drop (8 * i) bits))) [0..<(length bits + 7) div 8]"

definition encode_bed :: "dosage list list \<Rightarrow> byte list" where
  "encode_bed G =
     pack_bits (bitarray ''0011011011011000'' @ bitarray ''10000000'' @ concat (map encode_snp G))"

text \<open>The column the body of the loop of \<^verbatim>\<open>nextSNPs\<close> computes for the SNP at cursor
  \<open>c\<close>: the decoded slice cut to the number of samples.\<close>

definition snp_column :: "bed \<Rightarrow> nat \<Rightarrow> dosage list" where
  "snp_column self c =
     (case decode (py_slice (geno self) (2 * c * nru self) (2 * (c + 1) * nru self)) of
        Inl err \<Rightarrow> []
      | Inr X \<Rightarrow> py_slice X 0 (bed_n self))"

text \<open>The padded row length \<^verbatim>\<open>nru\<close> as a function of the number of samples.\<close>

definition pad4 :: "nat \<Rightarrow> nat" where
  "pad4 k = k + (if k mod 4 \<noteq> 0 then 4 - k mod 4 else 0)"

text \<open>The 24 bits of the header: the magic number, then the mode of SNP-major files.\<close>

definition hdr_bits :: "bool list" where
  "hdr_bits = bitarray ''0011011011011000'' @ bitarray ''10000000''"

section \<open>LD matrix: blocks\<close>

text \<open>
  A block of \<^verbatim>\<open>LDmatrix.data\<close> is a numpy array: one-dimensional (the strict lower
  triangle of a correlation block, row by row) or two-dimensional (a dense block, the list
  of its rows).
\<close>

datatype block = Tril "real list" | Dense "real list list"

text \<open>\<^verbatim>\<open>np.tril_indices(n, k = -1)\<close>: the positions below the diagonal, row by row, as
  pairs of row and column.\<close>

definition tril_indices :: "nat \<Rightarrow> (nat \<times> nat) list" where
  "tril_indices n = concat (map (\<lambda>r. map (\<lambda>c. (r, c)) [0..<r]) [0..<n])"

text \<open>\<^verbatim>\<open>matrix[indices] = values\<close>, one position after the other.\<close>

definition assign_at :: "(nat \<times> nat) \<times> real \<Rightarrow> real list list \<Rightarrow> real list list" where
  "assign_at pv M = (case pv of ((r, c), v) \<Rightarrow> M[r := (M ! r)[c := v]])"

definition scatter :: "(nat \<times> nat) list \<Rightarrow> real list \<Rightarrow> real list list \<Rightarrow> real list list" where
  "scatter indices vals M = fold assign_at (zip indices vals) M"

text \<open>
  \<^verbatim>\<open>LDmatrix._get_2d_matrix(dim, tril)\<close>: a two-dimensional \<^verbatim>\<open>tril\<close> raises; else the
  triangle is written below the diagonal of a zero matrix (numpy raises unless there is
  one value per position, or a single value for all of them), the transpose is added and
  the diagonal is set to 1.
\<close>

definition get_2d_matrix :: "nat \<Rightarrow> block \<Rightarrow> error + real list list" where
  "get_2d_matrix n_dim tril =
     (case tril of
        Dense rows \<Rightarrow> Inl WrongDimension
      | Tril vals \<Rightarrow>
          (let matrix = replicate n_dim (replicate n_dim 0);
               indices = tril_indices n_dim
           in if length vals \<noteq> length indices \<and> length vals \<noteq> 1 then Inl ShapeMismatch
              else
                (let vals = (if length vals = length indices then vals
                             else replicate (length indices) (hd vals));
                     matrix = scatter indices vals matrix;
                     matrix = map (\<lambda>r. map (\<lambda>c. matrix ! r ! c + matrix ! c ! r) [0..<n_dim]) [0..<n_dim];
                     matrix = map (\<lambda>r. (matrix ! r)[r := 1]) [0..<n_dim]
                 in Inr matrix)))"

text \<open>\<^verbatim>\<open>LDmatrixBED._get_lower_triangle(matrix)\<close>:
  \<^verbatim>\<open>matrix[np.tril_indices(matrix.shape[0], k = -1)]\<close>.\<close>

definition get_lower_triangle :: "real list list \<Rightarrow> real list" where
  "get_lower_triangle matrix =
     map (\<lambda>(r, c). matrix ! r ! c) (tril_indices (length matrix))"

text \<open>The dense sub-matrix of the index law: rows and columns \<open>idxs\<close> of a matrix.\<close>

definition submatrix :: "real list list \<Rightarrow> nat list \<Rightarrow> real list list" where
  "submatrix matrix idxs = map (\<lambda>r. map (\<lambda>c. matrix ! r ! c) idxs) idxs"

text \<open>\<^verbatim>\<open>np.cumsum(xs)\<close>, the running sums; \<^verbatim>\<open>a[k]\<close> for an integer \<open>k\<close>, where a negative
  index counts from the end and an index out of range raises.\<close>

fun cumsum_from :: "nat \<Rightarrow> nat list \<Rightarrow> nat list" where
  "cumsum_from acc [] = []"
| "cumsum_from acc (x # xs) = (acc + x) # cumsum_from (acc + x) xs"

definition np_cumsum :: "nat list \<Rightarrow> nat list" where
  "np_cumsum xs = cumsum_from 0 xs"

definition np_index :: "'a list \<Rightarrow> int \<Rightarrow> error + 'a" where
  "np_index xs k =
     (let len = int (length xs); j = (if k < 0 then len + k else k)
      in if 0 \<le> j \<and> j < len then Inr (xs ! nat j) else Inl IndexError)"

text \<open>The list comprehension
  \<^verbatim>\<open>[cum_sum[idxs[i] - 1] + idxs[:i] for i in range(1, len(idxs))]\<close>, over the list of
  the values of \<open>i\<close>: the number is added to every entry of the slice.\<close>

fun offset_rows :: "nat list \<Rightarrow> nat list \<Rightarrow> nat list \<Rightarrow> error + nat list list" where
  "offset_rows cum_sum idxs [] = Inr []"
| "offset_rows cum_sum idxs (i # rest) =
     (case np_index cum_sum (int (idxs ! i) - 1) of
        Inl err \<Rightarrow> Inl err
      | Inr off \<Rightarrow>
          (case offset_rows cum_sum idxs rest of
             Inl err \<Rightarrow> Inl err
           | Inr rows \<Rightarrow> Inr (map (\<lambda>c. off + c) (py_slice idxs 0 i) # rows)))"

text \<open>\<^verbatim>\<open>data[idx]\<close> for an array of indices that are not negative: the entries (of a
  two-dimensional array the rows) at the indices; an index out of range raises.\<close>

definition take_indices :: "'a list \<Rightarrow> nat list \<Rightarrow> error + 'a list" where
  "take_indices xs idx =
     (if list_all (\<lambda>k. k < length xs) idx then Inr (map (\<lambda>k. xs ! k) idx) else Inl IndexError)"

definition fancy_index :: "block \<Rightarrow> nat list \<Rightarrow> error + block" where
  "fancy_index dat idx =
     (case dat of
        Tril vals \<Rightarrow> (case take_indices vals idx of Inl err \<Rightarrow> Inl err | Inr vs \<Rightarrow> Inr (Tril vs))
      | Dense rows \<Rightarrow> (case take_indices rows idx of Inl err \<Rightarrow> Inl err | Inr rs \<Rightarrow> Inr (Dense rs)))"

text \<open>\<^verbatim>\<open>LDmatrix._extract_by_idxs(data, size, idxs)\<close>.\<close>

definition extract_by_idxs :: "block \<Rightarrow> nat \<Rightarrow> nat list \<Rightarrow> error + block" where
  "extract_by_idxs dat block_size idxs =
     (let cum_sum = np_cumsum [0..<block_size - 1]
      in case offset_rows cum_sum idxs [1..<length idxs] of
           Inl err \<Rightarrow> Inl err
         | Inr idx \<Rightarrow>
             if length idx > 0 then fancy_index dat (concat idx)
             else Inr (Tril []))"

section \<open>LD matrix: the object and its operations\<close>

text \<open>
  A row of the info table \<^verbatim>\<open>ld_info\<close> with the columns the operations read: \<^verbatim>\<open>CHR\<close>,
  \<^verbatim>\<open>SNP\<close>, \<^verbatim>\<open>N\<close>, \<^verbatim>\<open>block\<close>, \<^verbatim>\<open>block_idx\<close>. The table is the list of its rows; the
  index labels of pandas only name the first and the last row here.
\<close>

record info_row =
  ld_CHR :: int
  ld_SNP :: string
  ld_N :: int
  ld_block :: nat
  ld_block_idx :: nat

text \<open>The fields of an \<^verbatim>\<open>LDmatrix\<close> object.\<close>

record LDmatrix =
  ld_info :: "info_row list"
  data :: "block list"
  is_truncated :: bool
  block_sizes :: "nat list"
  block_ranges :: "(nat \<times> nat) list"

text \<open>The files of the LD matrices on disk, by prefix: \<^verbatim>\<open><prefix>_ld_info.txt\<close> and
  \<^verbatim>\<open><prefix>_ld.dat\<close>.\<close>

record disk =
  info_files :: "string \<rightharpoonup> info_row list"
  dat_files :: "string \<rightharpoonup> block list"

text \<open>\<^verbatim>\<open>pd.unique\<close> keeps the first occurrence of every value, in order; \<^verbatim>\<open>np.diff\<close> is
  the list of the differences of neighbours.\<close>

definition pd_unique :: "'a list \<Rightarrow> 'a list" where
  "pd_unique xs = rev (remdups (rev xs))"

definition np_diff :: "int list \<Rightarrow> int list" where
  "np_diff xs = map (\<lambda>(a, b). b - a) (zip xs (tl xs))"

text \<open>
  \<^verbatim>\<open>LDmatrix._get_block_info(ld_info)\<close>: the number of rows of every block label, by
  ascending label (\<^verbatim>\<open>pd.value_counts(ld_info['block']).sort_index()\<close>), and the running
  ranges \<^verbatim>\<open>(begin, end)\<close>.
\<close>

definition value_counts_sorted :: "nat list \<Rightarrow> nat list" where
  "value_counts_sorted labels = map (\<lambda>b. count_list labels b) (sort (remdups labels))"

fun ranges_from :: "nat \<Rightarrow> nat list \<Rightarrow> (nat \<times> nat) list" where
  "ranges_from en [] = []"
| "ranges_from en (block_size # rest) = (en, en + block_size) # ranges_from (en + block_size) rest"

definition get_block_info :: "info_row list \<Rightarrow> nat list \<times> (nat \<times> nat) list" where
  "get_block_info info =
     (let sizes = value_counts_sorted (map ld_block info) in (sizes, ranges_from 0 sizes))"

text \<open>\<^verbatim>\<open>LDmatrix(ld_prefix)\<close>: the info table is read and checked, then the data.\<close>

definition LDmatrix_init :: "disk \<Rightarrow> string \<Rightarrow> error + LDmatrix" where
  "LDmatrix_init fs ld_prefix =
     (case info_files fs ld_prefix of
        None \<Rightarrow> Inl FileNotFound
      | Some info \<Rightarrow>
          if \<not> list_all (\<lambda>d. d > 0) (np_diff (pd_unique (map ld_CHR info))) then Inl ChrsNotSorted
          else
            (case dat_files fs ld_prefix of
               None \<Rightarrow> Inl FileNotFound
             | Some dat \<Rightarrow>
                 Inr \<lparr>ld_info = info, data = dat, is_truncated = False,
                      block_sizes = fst (get_block_info info),
                      block_ranges = snd (get_block_info info)\<rparr>))"

text \<open>
  The loop of \<^verbatim>\<open>LDmatrix.merge(ld_files)\<close>. The object is returned with the result, as
  the statements before an error have left it. In the body,
  \<^verbatim>\<open>ld_i.ld_info.index[0]\<close> and \<^verbatim>\<open>self.ld_info.index[-1]\<close> raise for a table without rows;
  the guard raises when the first chromosome of the incoming matrix is greater than or equal
  to the last chromosome of the current one; \<^verbatim>\<open>self.data.extend(ld_i.data)\<close> appends the
  blocks; and the next statement reads
  \<^verbatim>\<open>self.ld_info[self.ld_info.index[-1], 'block']\<close>, the table indexed by a pair of a row
  label and a column name. A pair is no column of the table (its columns are the nine
  names of the info file), so pandas raises KeyError there on every run that reaches the
  statement, and the statements after it (the new block labels, the concatenation of the
  tables, the appends to \<^verbatim>\<open>block_sizes\<close> and \<^verbatim>\<open>block_ranges\<close>) are never executed.
\<close>

fun merge_loop :: "disk \<Rightarrow> LDmatrix \<Rightarrow> string list \<Rightarrow> (error + unit) \<times> LDmatrix" where
  "merge_loop fs self [] = (Inr (), self)"
| "merge_loop fs self (ld_prefix # ld_files) =
     (case LDmatrix_init fs ld_prefix of
        Inl err \<Rightarrow> (Inl err, self)
      | Inr ld_i \<Rightarrow>
          if ld_info ld_i = [] then (Inl IndexError, self)
          else if ld_info self = [] then (Inl IndexError, self)
          else if ld_CHR (hd (ld_info ld_i)) \<ge> ld_CHR (last (ld_info self))
          then (Inl MergeOrder, self)
          else (Inl KeyError, self\<lparr>data := data self @ data ld_i\<rparr>))"

text \<open>\<^verbatim>\<open>LDmatrix.merge(ld_files)\<close>.\<close>

definition merge :: "disk \<Rightarrow> LDmatrix \<Rightarrow> string list \<Rightarrow> (error + unit) \<times> LDmatrix" where
  "merge fs self ld_files =
     (if is_truncated self then (Inl Truncated, self)
      else if length ld_files = 0 then (Inl NothingInList, self)
      else merge_loop fs self ld_files)"

text \<open>
  The loop of \<^verbatim>\<open>LDmatrix.extract\<close> over \<^verbatim>\<open>range(len(self.data))\<close>: a position that is a
  block label of the filtered table has its block cut to the indices kept.
\<close>

fun extract_loop ::
  "LDmatrix \<Rightarrow> (nat \<rightharpoonup> nat list) \<Rightarrow> nat list \<Rightarrow> nat list \<Rightarrow> (error + nat list) \<times> LDmatrix" where
  "extract_loop self block_dict [] keep_list = (Inr keep_list, self)"
| "extract_loop self block_dict (i # rest) keep_list =
     (case block_dict i of
        None \<Rightarrow> extract_loop self block_dict rest keep_list
      | Some idxs \<Rightarrow>
          if \<not> i < length (block_sizes self) then (Inl IndexError, self)
          else
            (case extract_by_idxs (data self ! i) (block_sizes self ! i) idxs of
               Inl err \<Rightarrow> (Inl err, self)
             | Inr blk \<Rightarrow>
                 extract_loop (self\<lparr>data := (data self)[i := blk]\<rparr>) block_dict rest
                   (keep_list @ [i])))"

text \<open>
  \<^verbatim>\<open>LDmatrix.extract(snps)\<close> (\<open>extract\<close> is a keyword of Isabelle): the rows of the SNPs asked for, the dictionary from block
  label to the \<^verbatim>\<open>block_idx\<close> of its rows, the loop, the blocks kept, the new
  \<^verbatim>\<open>block_idx\<close> column (for every label in ascending order a range of the length of its
  group, written to the rows by position) and the new block sizes and ranges.
\<close>

definition ld_extract :: "LDmatrix \<Rightarrow> string list \<Rightarrow> (error + unit) \<times> LDmatrix" where
  "ld_extract self snps =
     (if is_truncated self then (Inl Truncated, self)
      else
        (let info = filter (\<lambda>r. ld_SNP r \<in> set snps) (ld_info self);
             self = self\<lparr>ld_info := info\<rparr>;
             block_dict = (\<lambda>k. if k \<in> set (map ld_block info)
                                then Some (map ld_block_idx (filter (\<lambda>r. ld_block r = k) info))
                                else None)
         in case extract_loop self block_dict [0..<length (data self)] [] of
              (Inl err, self) \<Rightarrow> (Inl err, self)
            | (Inr keep_list, self) \<Rightarrow>
                (let self = self\<lparr>data := map (\<lambda>i. data self ! i) keep_list\<rparr>;
                     new_idx = concat (map (\<lambda>n. [0..<n]) (value_counts_sorted (map ld_block info)));
                     self = self\<lparr>ld_info :=
                              map (\<lambda>(r, k). r\<lparr>ld_block_idx := k\<rparr>) (zip (ld_info self) new_idx)\<rparr>
                 in (Inr (), self\<lparr>block_sizes := fst (get_block_info (ld_info self)),
                                  block_ranges := snd (get_block_info (ld_info self))\<rparr>))))"

text \<open>
  The eigen-decomposition of \<^verbatim>\<open>truncate\<close> for \<^verbatim>\<open>prop != 1\<close> is numerical linear algebra
  of numpy (\<^verbatim>\<open>np.linalg.eigh\<close>, the choice of the leading eigenvalues, the product
  \<^verbatim>\<open>np.dot(bases * values, bases.T)\<close> or its inverse form) and is a parameter of the
  model: for the proportion, the flag \<^verbatim>\<open>inv\<close> and the dense block it raises or gives
  the entries of the product, a matrix of the shape of the block.
\<close>

type_synonym eigen = "real \<Rightarrow> bool \<Rightarrow> real list list \<Rightarrow> error + (nat \<Rightarrow> nat \<Rightarrow> real)"

text \<open>The loops of \<^verbatim>\<open>LDmatrix.truncate\<close> over \<^verbatim>\<open>range(len(self.data))\<close>, with the test
  \<^verbatim>\<open>prop == 1\<close> that chooses between them inside the body.\<close>

fun truncate_loop ::
  "eigen \<Rightarrow> LDmatrix \<Rightarrow> real \<Rightarrow> bool \<Rightarrow> nat list \<Rightarrow> block list \<Rightarrow> error + block list" where
  "truncate_loop eig self prop inv_flag [] ld_bd = Inr ld_bd"
| "truncate_loop eig self prop inv_flag (i # rest) ld_bd =
     (if \<not> i < length (block_sizes self) then Inl IndexError
      else
        (case get_2d_matrix (block_sizes self ! i) (data self ! i) of
           Inl err \<Rightarrow> Inl err
         | Inr blk \<Rightarrow>
             if prop = 1 then truncate_loop eig self prop inv_flag rest (ld_bd @ [Dense blk])
             else
               (case eig prop inv_flag blk of
                  Inl err \<Rightarrow> Inl err
                | Inr entry \<Rightarrow>
                    truncate_loop eig self prop inv_flag rest
                      (ld_bd @ [Dense (map (\<lambda>r. map (\<lambda>c. entry r c) [0..<length blk])
                                        [0..<length blk])]))))"

text \<open>\<^verbatim>\<open>LDmatrix.truncate(prop, inv)\<close>; the flag \<^verbatim>\<open>inv\<close> is \<open>inv_flag\<close> here.\<close>

definition truncate :: "eigen \<Rightarrow> LDmatrix \<Rightarrow> real \<Rightarrow> bool \<Rightarrow> (error + unit) \<times> LDmatrix" where
  "truncate eig self prop inv_flag =
     (if is_truncated self then (Inl Truncated, self)
      else
        (case truncate_loop eig self prop inv_flag [0..<length (data self)] [] of
           Inl err \<Rightarrow> (Inl err, self)
         | Inr ld_bd \<Rightarrow> (Inr (), self\<lparr>data := ld_bd, is_truncated := True\<rparr>)))"

text \<open>\<^verbatim>\<open>LDmatrix.save(out)\<close> writes the two files and leaves the object as it is.\<close>

definition save :: "disk \<Rightarrow> LDmatrix \<Rightarrow> string \<Rightarrow> disk" where
  "save fs self out =
     fs\<lparr>dat_files := (dat_files fs)(out \<mapsto> data self),
        info_files := (info_files fs)(out \<mapsto> ld_info self)\<rparr>"

text \<open>
  \<^verbatim>\<open>np.sum(block ** 2, axis=0)\<close>: of a dense block the sums of the squares of every
  column, of a one-dimensional array one number (a list of length one).
\<close>

definition col_sq_sums :: "block \<Rightarrow> real list" where
  "col_sq_sums blk =
     (case blk of
        Tril vals \<Rightarrow> [sum_list (map (\<lambda>x. x\<^sup>2) vals)]
      | Dense rows \<Rightarrow>
          (if rows = [] then []
           else map (\<lambda>c. sum_list (map (\<lambda>row. (row ! c)\<^sup>2) rows)) [0..<length (hd rows)]))"

text \<open>\<^verbatim>\<open>xs[b:e] = vs\<close> for a numpy array: the slice takes a vector of its length or a
  single number, else numpy raises.\<close>

definition assign_slice :: "'a list \<Rightarrow> nat \<Rightarrow> nat \<Rightarrow> 'a list \<Rightarrow> error + 'a list" where
  "assign_slice xs b e vs =
     (let b' = min b (length xs); e' = max b' (min e (length xs)); len = e' - b'
      in if length vs = len then Inr (take b' xs @ vs @ drop e' xs)
         else if length vs = 1 then Inr (take b' xs @ replicate len (hd vs) @ drop e' xs)
         else Inl ShapeMismatch)"

text \<open>
  The loop of \<^verbatim>\<open>estimate_ldscore\<close> over \<^verbatim>\<open>enumerate(self.block_ranges)\<close>:
  \<^verbatim>\<open>adj_ld = raw_ld - (1 - raw_ld) / (n_samples[i] - 2)\<close>, where numpy divides by zero
  without raising.
\<close>

fun ldscore_loop ::
  "LDmatrix \<Rightarrow> int list \<Rightarrow> nat \<Rightarrow> (nat \<times> nat) list \<Rightarrow> real option list \<Rightarrow> error + real option list" where
  "ldscore_loop self n_samples i [] ldscore = Inr ldscore"
| "ldscore_loop self n_samples i ((bgn, en) # rest) ldscore =
     (if \<not> i < length (data self) then Inl IndexError
      else
        (let raw_ld = col_sq_sums (data self ! i)
         in if \<not> i < length n_samples then Inl IndexError
            else
              (let adj_ld = map (\<lambda>x. case np_div (1 - x) (real_of_int (n_samples ! i - 2)) of
                                        None \<Rightarrow> None
                                      | Some q \<Rightarrow> Some (x - q)) raw_ld
               in case assign_slice ldscore bgn en adj_ld of
                    Inl err \<Rightarrow> Inl err
                  | Inr ldscore \<Rightarrow> ldscore_loop self n_samples (i + 1) rest ldscore)))"

text \<open>\<^verbatim>\<open>LDmatrix.estimate_ldscore()\<close>: the LD scores and the block-merge plan.\<close>

definition estimate_ldscore :: "LDmatrix \<Rightarrow> error + (real option list \<times> nat list list)" where
  "estimate_ldscore self =
     (if \<not> is_truncated self then Inl TruncateFirst
      else
        (let n_samples = map ld_N (ld_info self);
             ldscore = replicate (length (ld_info self)) (Some 0)
         in case ldscore_loop self n_samples 0 (block_ranges self) ldscore of
              Inl err \<Rightarrow> Inl err
            | Inr ldscore \<Rightarrow> Inr (ldscore, merge_blocks (map int (block_sizes self)))))"

text \<open>
  A matrix as loading leaves it when the two files of a prefix fit together: the block
  sizes and ranges are those of the info table, and there is one block of data for every
  block label.
\<close>

definition ld_consistent :: "LDmatrix \<Rightarrow> bool" where
  "ld_consistent self =
     (block_sizes self = fst (get_block_info (ld_info self)) \<and>
      block_ranges self = snd (get_block_info (ld_info self)) \<and>
      length (data self) = length (block_sizes self))"

text \<open>For the proofs: the offset \<open>0 + 1 + ... + (r - 1)\<close> of row \<open>r\<close> in the triangle, and
  the square matrices of size \<open>n\<close>.\<close>

fun tri :: "nat \<Rightarrow> nat" where
  "tri 0 = 0"
| "tri (Suc n) = tri n + n"

definition is_mat :: "nat \<Rightarrow> real list list \<Rightarrow> bool" where
  "is_mat n M = (length M = n \<and> list_all (\<lambda>row. length row = n) M)"

section \<open>Strand filter: results\<close>

lemma prune_strand_filter:
  "prune_strand gwas = filter (\<lambda>r. not_strand_ambiguous (A2 r) (A1 r)) gwas"
  unfolding prune_strand_def by (induction gwas) auto

lemma dom_complement: "dom complement = {''A'', ''T'', ''C'', ''G''}"
  unfolding complement_def by auto

lemma not_strand_ambiguous_spec: "not_strand_ambiguous a2 a1 = spec_keeps a1 a2"
  unfolding not_strand_ambiguous_def spec_keeps_def dom_complement
  by (auto simp: complement_def)

text \<open>
  C8. In the pruning step a variant is kept if and only if both alleles are single
  characters of the complement map and the complement of A1 differs from A2: the rows
  kept are the rows of the table for which that holds, in their order. So the pairs A/T,
  T/A, C/G, G/C are dropped, every pair with a multi-character allele is dropped, and
  A/C, A/G, T/C, T/G and their reverses are kept.
\<close>

theorem strand_filter_spec:
  "prune_strand gwas = filter (\<lambda>r. spec_keeps (A1 r) (A2 r)) gwas \<and>
   \<not> not_strand_ambiguous ''T'' ''A'' \<and> \<not> not_strand_ambiguous ''A'' ''T'' \<and>
   \<not> not_strand_ambiguous ''G'' ''C'' \<and> \<not> not_strand_ambiguous ''C'' ''G'' \<and>
   not_strand_ambiguous ''C'' ''A'' \<and> not_strand_ambiguous ''G'' ''A'' \<and>
   not_strand_ambiguous ''C'' ''T'' \<and> not_strand_ambiguous ''G'' ''T'' \<and>
   not_strand_ambiguous ''A'' ''C'' \<and> not_strand_ambiguous ''A'' ''G'' \<and>
   not_strand_ambiguous ''T'' ''C'' \<and> not_strand_ambiguous ''T'' ''G'' \<and>
   (if 1 < length (A1 r) \<or> 1 < length (A2 r) then prune_strand [r] = [] else True)"
proof -
  have "prune_strand gwas = filter (\<lambda>r. spec_keeps (A1 r) (A2 r)) gwas"
    by (simp add: prune_strand_filter not_strand_ambiguous_spec)
  moreover have "1 < length (A1 r) \<or> 1 < length (A2 r) \<Longrightarrow> prune_strand [r] = []"
    by (auto simp: prune_strand_filter not_strand_ambiguous_def)
  ultimately show ?thesis
    by (simp add: not_strand_ambiguous_spec spec_keeps_def dom_complement complement_def)
qed

theorem strand_filter_spec_witness:
  "prune_strand [\<lparr>SNP = ''rs1'', A1 = ''A'', A2 = ''C''\<rparr>, \<lparr>SNP = ''rs2'', A1 = ''A'', A2 = ''T''\<rparr>,
                 \<lparr>SNP = ''rs3'', A1 = ''AT'', A2 = ''G''\<rparr>, \<lparr>SNP = ''rs4'', A1 = ''G'', A2 = ''T''\<rparr>]
     = [\<lparr>SNP = ''rs1'', A1 = ''A'', A2 = ''C''\<rparr>, \<lparr>SNP = ''rs4'', A1 = ''G'', A2 = ''T''\<rparr>] \<and>
   prune_strand [\<lparr>SNP = ''rs3'', A1 = ''AT'', A2 = ''G''\<rparr>] = []"
  using strand_filter_spec [of "[\<lparr>SNP = ''rs1'', A1 = ''A'', A2 = ''C''\<rparr>,
      \<lparr>SNP = ''rs2'', A1 = ''A'', A2 = ''T''\<rparr>, \<lparr>SNP = ''rs3'', A1 = ''AT'', A2 = ''G''\<rparr>,
      \<lparr>SNP = ''rs4'', A1 = ''G'', A2 = ''T''\<rparr>]" "\<lparr>SNP = ''rs3'', A1 = ''AT'', A2 = ''G''\<rparr>"]
  by (simp add: spec_keeps_def dom_complement complement_def)

section \<open>Median check: results\<close>

lemma check_median_raises_iff:
  "check_median column effect null_value = Inl (Mislabeled effect) \<longleftrightarrow>
     (\<exists>md. nanmedian column = Some md \<and> md - null_value > 0.1)"
  by (auto simp: check_median_def np_abs_bool_def Let_def split: option.splits)

text \<open>
  C2. The claim: the check raises whenever the median differs from the null value by more
  than 0.1 in absolute value, in particular for a median far below the null value. The
  code raises exactly when the median exceeds the null value by more than 0.1
  (\<open>check_median_raises_iff\<close>): for the one-entry column \<open>[-5]\<close> and the null value 0
  (median \<open>-5\<close>, the null value minus 5) \<^verbatim>\<open>_check_median\<close> returns without an error.
\<close>

theorem check_median_below_null_passes:
  "check_median [Some (-5)] ''BETA'' 0 = Inr ()"
  by (simp add: check_median_def nanmedian_def np_abs_bool_def)

section \<open>Block-merge plan: results\<close>

text \<open>
  C4. The claim: every block index is in exactly one group of the plan. The code: for the
  two block sizes 1 and 1 (\<^verbatim>\<open>mean_size\<close> 0.01) block 0 joins the current group, the last
  block fits no more and is emitted alone, and the current group holding block 0 is never
  emitted: the plan is \<open>[[1]]\<close>.
\<close>

theorem merge_blocks_drops_group:
  "merge_blocks [1, 1] = [[1]]"
  by (simp add: merge_blocks_def)

section \<open>Jackknife: results\<close>

lemma isub_same: "length b = length acc \<Longrightarrow> isub acc b = Inr (map (\<lambda>j. acc ! j - b ! j) [0..<length acc])"
  by (auto simp: isub_def intro!: nth_equalityI)

lemma lobo_sub_eq:
  "\<forall>ii\<in>set blocks. ii < length block_est \<and> length (block_est ! ii) = length acc \<Longrightarrow>
   lobo_sub acc block_est blocks =
     Inr (map (\<lambda>j. acc ! j - (\<Sum>ii\<leftarrow>blocks. block_est ! ii ! j)) [0..<length acc])"
proof (induction blocks arbitrary: acc)
  case Nil
  show ?case by (simp add: map_nth)
next
  case (Cons ii blocks)
  let ?v = "map (\<lambda>j. acc ! j - block_est ! ii ! j) [0..<length acc]"
  have 1: "isub acc (block_est ! ii) = Inr ?v"
    using Cons.prems by (simp add: isub_same)
  have 2: "\<forall>ii\<in>set blocks. ii < length block_est \<and> length (block_est ! ii) = length ?v"
    using Cons.prems by simp
  show ?case
    using Cons.prems Cons.IH [OF 2] by (simp add: 1 algebra_simps)
qed

lemma lobo_estimate_replicate:
  "\<forall>blocks\<in>set merged_blocks. lobo_sub tot block_est blocks = Inr row \<Longrightarrow>
   lobo_estimate tot block_est merged_blocks = Inr (replicate (length merged_blocks) row)"
  by (induction merged_blocks) auto

lemma sum_list_replicate_real: "sum_list (replicate k (x::real)) = real k * x"
  by (induction k) (auto simp: algebra_simps)

lemma jackknife_replicate:
  assumes "0 < k" "length row = length tot"
  shows "jackknife tot (replicate k row) k =
     Inr (map (\<lambda>j. Some (real k * tot ! j - (real k - 1) * row ! j)) [0..<length tot],
          replicate (length tot) (Some 0))"
proof -
  have m: "np_mean_axis0 (replicate k row) = row"
    using assms(1) by (auto simp: np_mean_axis0_def map_replicate_const sum_list_replicate_real intro!: nth_equalityI)
  have b: "broadcast2 f tot row = Inr (map (\<lambda>j. f (tot ! j) (row ! j)) [0..<length tot])" for f
    using assms(2) by (auto simp: broadcast2_def intro!: nth_equalityI)
  have z: "sum_list (replicate k (0::real)) = 0" by (induction k) auto
  show ?thesis
    using assms unfolding jackknife_def by (simp add: m b z Let_def comp_def np_sqrt_def map_replicate_const)
qed

text \<open>
  C3, as the code has it. When the blocks of every merged group together contribute the
  total estimate divided by the number \<open>k\<close> of merged groups, every leave-one-block-out
  row is \<open>total - total / k\<close>, and the jackknife of these rows returns the estimate
  \<open>(2k - 1) / k * total\<close> and the standard error 0 in every entry. The equalities are
  those of the real numbers of the model; the floats of the code round, so the code
  returns these two values approximately, which is all the property asks of them.
\<close>

theorem jackknife_equal_blocks:
  assumes ne: "merged_blocks \<noteq> []"
    and shape: "\<forall>blocks\<in>set merged_blocks. \<forall>ii\<in>set blocks.
                  ii < length block_est \<and> length (block_est ! ii) = length tot"
    and eq: "\<forall>blocks\<in>set merged_blocks. \<forall>j<length tot.
                  (\<Sum>ii\<leftarrow>blocks. block_est ! ii ! j) = tot ! j / real (length merged_blocks)"
  shows "jackknife_lobo tot block_est merged_blocks =
           Inr (map (\<lambda>t. Some ((2 * real (length merged_blocks) - 1) / real (length merged_blocks) * t)) tot,
                replicate (length tot) (Some 0))"
proof -
  let ?k = "length merged_blocks"
  let ?row = "map (\<lambda>t. t - t / real ?k) tot"
  have k: "0 < ?k" using ne by simp
  have rows: "\<forall>blocks\<in>set merged_blocks. lobo_sub tot block_est blocks = Inr ?row"
  proof
    fix blocks assume b: "blocks \<in> set merged_blocks"
    have "lobo_sub tot block_est blocks =
            Inr (map (\<lambda>j. tot ! j - (\<Sum>ii\<leftarrow>blocks. block_est ! ii ! j)) [0..<length tot])"
      using shape b by (intro lobo_sub_eq) auto
    also have "map (\<lambda>j. tot ! j - (\<Sum>ii\<leftarrow>blocks. block_est ! ii ! j)) [0..<length tot] = ?row"
      using eq b by (auto intro!: nth_equalityI)
    finally show "lobo_sub tot block_est blocks = Inr ?row" .
  qed
  have lobo: "lobo_estimate tot block_est merged_blocks = Inr (replicate ?k ?row)"
    using rows by (rule lobo_estimate_replicate)
  have est: "map (\<lambda>j. Some (real ?k * tot ! j - (real ?k - 1) * ?row ! j)) [0..<length tot]
      = map (\<lambda>t. Some ((2 * real ?k - 1) / real ?k * t)) tot"
  proof (rule nth_equalityI)
    show "length (map (\<lambda>j. Some (real ?k * tot ! j - (real ?k - 1) * ?row ! j)) [0..<length tot])
        = length (map (\<lambda>t. Some ((2 * real ?k - 1) / real ?k * t)) tot)" by simp
  next
    fix j assume "j < length (map (\<lambda>j. Some (real ?k * tot ! j - (real ?k - 1) * ?row ! j)) [0..<length tot])"
    then have j: "j < length tot" by simp
    have "real ?k * t - (real ?k - 1) * (t - t / real ?k) = (2 * real ?k - 1) / real ?k * t" for t :: real
      using k by (simp add: field_simps)
    then show "map (\<lambda>j. Some (real ?k * tot ! j - (real ?k - 1) * ?row ! j)) [0..<length tot] ! j
        = map (\<lambda>t. Some ((2 * real ?k - 1) / real ?k * t)) tot ! j"
      using j by simp
  qed
  show ?thesis
    unfolding jackknife_lobo_def lobo
    using jackknife_replicate [OF k, of ?row tot] est by simp
qed

theorem jackknife_equal_blocks_witness:
  "jackknife_lobo [2, 4] [[1, 2], [1, 2]] [[0], [1]] = Inr ([Some 3, Some 6], [Some 0, Some 0])"
  using jackknife_equal_blocks [of "[[0], [1]]" "[[1, 2], [1, 2]]" "[2, 4]"]
  by (simp add: nth_Cons' less_Suc_eq)

text \<open>
  C3, as stated, fails: for the total estimate 2 and two merged blocks that contribute
  1 each (the total divided by the block count), both leave-one-block-out estimates are
  1 and the jackknife estimate is \<open>2 * 2 - 1 * 1 = 3\<close>, which is not approximately 2;
  the standard error is 0.
\<close>

theorem jackknife_estimate_not_total:
  "jackknife_lobo [2] [[1], [1]] [[0], [1]] = Inr ([Some 3], [Some 0])"
  by (simp add: jackknife_lobo_def jackknife_def np_mean_axis0_def broadcast2_def isub_def
      np_sqrt_def)

section \<open>Heritability standard error: results\<close>

text \<open>
  C9. For a sample size \<open>n\<close> other than 0, \<^verbatim>\<open>_get_heri_se\<close> returns entry by entry the
  square root of \<open>2d/n\<^sup>2 + 2h/n + 2h(1 - h)/n\<close>, the sum replaced by 0 when its absolute
  value is below \<open>1e-10\<close> (not-a-number where the sum kept is negative); the result
  has one entry per entry of \<open>h\<close>.
\<close>

theorem get_heri_se_spec:
  "n \<noteq> 0 \<Longrightarrow> get_heri_se heri d n = map (\<lambda>h. spec_heri_se h d n) heri"
  unfolding get_heri_se_def spec_heri_se_def Let_def
  by (induction heri) (auto simp: np_div_def np_add_def)

theorem get_heri_se_spec_witness:
  "get_heri_se [1 / 2, 0] 0 4 = [Some (sqrt (3 / 8)), Some 0]"
  using get_heri_se_spec [of 4 "[1 / 2, 0]" 0]
  by (simp add: spec_heri_se_def np_sqrt_def power2_eq_square)

section \<open>PLINK .bed files: results\<close>

lemma length_byte_bits [simp]: "length (byte_bits w) = 8"
  by (simp add: byte_bits_def)

lemma byte_bits_pack: "length bs = 8 \<Longrightarrow> byte_bits (pack_byte bs) = bs"
  unfolding byte_bits_def pack_byte_def
  by (auto simp: bit_horner_sum_bit_word_iff intro!: nth_equalityI)

lemma fromfile_take: "fromfile (take k bytes) = take (8 * k) (fromfile bytes)"
proof (induction bytes arbitrary: k)
  case Nil
  show ?case by (simp add: fromfile_def)
next
  case (Cons w bytes)
  show ?case
  proof (cases k)
    case 0
    then show ?thesis by (simp add: fromfile_def)
  next
    case (Suc j)
    have "fromfile (take j bytes) = take (8 * j) (fromfile bytes)" by (rule Cons.IH)
    then show ?thesis using Suc by (simp add: fromfile_def)
  qed
qed

lemma fromfile_drop: "fromfile (drop k bytes) = drop (8 * k) (fromfile bytes)"
proof (induction bytes arbitrary: k)
  case Nil
  show ?case by (simp add: fromfile_def)
next
  case (Cons w bytes)
  show ?case
  proof (cases k)
    case 0
    then show ?thesis by (simp add: fromfile_def)
  next
    case (Suc j)
    have "fromfile (drop j bytes) = drop (8 * j) (fromfile bytes)" by (rule Cons.IH)
    then show ?thesis using Suc by (simp add: fromfile_def)
  qed
qed

lemma concat_chunks:
  "concat (map (\<lambda>i. take 8 (drop (8 * i) bs)) [0..<k]) = take (8 * k) bs"
proof (induction k)
  case 0
  show ?case by simp
next
  case (Suc k)
  have "take (8 * Suc k) bs = take (8 * k) bs @ take 8 (drop (8 * k) bs)"
    using take_add [of "8 * k" 8 bs] by (simp add: add.commute)
  then show ?case using Suc by simp
qed

lemma fromfile_pack_bits:
  assumes "8 dvd length bs"
  shows "fromfile (pack_bits bs) = bs"
proof -
  obtain k where k: "length bs = 8 * k" using assms by (auto elim: dvdE)
  have len: "length (take 8 (drop (8 * i) bs)) = 8" if "i < k" for i
    using that k by simp
  have "fromfile (pack_bits bs) = concat (map (\<lambda>i. byte_bits (pack_byte (take 8 (drop (8 * i) bs)))) [0..<k])"
    by (simp add: fromfile_def pack_bits_def k comp_def)
  also have "\<dots> = concat (map (\<lambda>i. take 8 (drop (8 * i) bs)) [0..<k])"
  proof -
    have "byte_bits (pack_byte (take 8 (drop (8 * i) bs))) = take 8 (drop (8 * i) bs)"
      if "i \<in> set [0..<k]" for i
      using that by (intro byte_bits_pack len) simp
    then show ?thesis by (metis (no_types, lifting) map_cong)
  qed
  also have "\<dots> = bs" by (simp add: concat_chunks k)
  finally show ?thesis .
qed

lemma length_pack_bits: "length (pack_bits bs) = (length bs + 7) div 8"
  by (simp add: pack_bits_def)

lemma length_encode_geno [simp]: "length (encode_geno g) = 2"
  by (simp add: encode_geno_def)

lemma length_concat_encode: "length (concat (map encode_geno col)) = 2 * length col"
  by (induction col) auto

lemma pad4_dvd: "4 dvd pad4 k"
  unfolding pad4_def by presburger

lemma pad4_ge: "k \<le> pad4 k"
  by (simp add: pad4_def)

lemma length_encode_snp: "length (encode_snp col) = 2 * pad4 (length col)"
  by (simp add: encode_snp_def length_concat_encode pad4_def)

lemma length_concat_const:
  "\<forall>x\<in>set xs. length (f x) = L \<Longrightarrow> length (concat (map f xs)) = length xs * L"
  by (induction xs) auto

lemma slice_concat:
  "\<forall>x\<in>set xs. length (f x) = L \<Longrightarrow> c < length xs \<Longrightarrow>
   py_slice (concat (map f xs)) (c * L) ((c + 1) * L) = f (xs ! c)"
proof (induction xs arbitrary: c)
  case Nil
  then show ?case by simp
next
  case (Cons x xs)
  show ?case
  proof (cases c)
    case 0
    then show ?thesis using Cons.prems by (simp add: py_slice_def)
  next
    case (Suc j)
    have "py_slice (concat (map f xs)) (j * L) ((j + 1) * L) = f (xs ! j)"
      using Cons.prems Suc by (intro Cons.IH) auto
    then show ?thesis using Cons.prems Suc by (simp add: py_slice_def)
  qed
qed

lemma decode_append:
  "decode bs = Inr vs \<Longrightarrow> even (length bs) \<Longrightarrow> decode (bs @ cs) = (case decode cs of Inl e \<Rightarrow> Inl e | Inr ws \<Rightarrow> Inr (vs @ ws))"
  by (induction bs arbitrary: vs rule: decode.induct) (auto split: sum.splits)

lemma decode_zeros: "decode (replicate (2 * p) False) = Inr (replicate p (Some 0))"
  by (induction p) (auto simp: bedcode_def)

lemma decode_encode:
  "set col \<subseteq> {Some 0, Some 1, Some 2, None} \<Longrightarrow>
   decode (concat (map encode_geno col) @ cs) = (case decode cs of Inl e \<Rightarrow> Inl e | Inr ws \<Rightarrow> Inr (col @ ws))"
  by (induction col) (auto simp: encode_geno_def bedcode_def split: sum.splits)

lemma decode_encode_snp:
  "set col \<subseteq> {Some 0, Some 1, Some 2, None} \<Longrightarrow>
   decode (encode_snp col) = Inr (col @ replicate (pad4 (length col) - length col) (Some 0))"
  unfolding encode_snp_def by (simp add: decode_encode decode_zeros pad4_def)

lemma decode_even:
  "even (length bs) \<Longrightarrow> \<exists>X. decode bs = Inr X \<and> 2 * length X = length bs"
  by (induction bs rule: decode.induct) auto


lemma bed_valid_nru: "bed_valid self \<Longrightarrow> nru self = pad4 (bed_n self)"
  by (simp add: bed_valid_def pad4_def)

lemma loop_body:
  assumes v: "bed_valid self" and c: "currentSNP self < bed_m self"
  shows "\<exists>X. decode (py_slice (geno self) (2 * currentSNP self * nru self)
                  (2 * (currentSNP self + 1) * nru self)) = Inr X \<and>
             assign_column (bed_n self) (py_slice X 0 (bed_n self)) = Inr (snp_column self (currentSNP self)) \<and>
             length (snp_column self (currentSNP self)) = bed_n self"
proof -
  let ?c = "currentSNP self"
  let ?sl = "py_slice (geno self) (2 * ?c * nru self) (2 * (?c + 1) * nru self)"
  have "(?c + 1) * (2 * nru self) \<le> bed_m self * (2 * nru self)"
    using c by (intro mult_le_mono1) simp
  then have le: "2 * (?c + 1) * nru self \<le> length (geno self)"
    using v by (simp add: bed_valid_def mult.assoc mult.left_commute)
  have len: "length ?sl = 2 * nru self"
    using le by (simp add: py_slice_def)
  then obtain X where X: "decode ?sl = Inr X" "2 * length X = length ?sl"
    using decode_even [of ?sl] by auto
  have lx: "length X = nru self" using X(2) len by simp
  have n: "bed_n self \<le> nru self" using v by (simp add: bed_valid_def)
  have col: "snp_column self ?c = py_slice X 0 (bed_n self)"
    unfolding snp_column_def X(1) by simp
  have "length (py_slice X 0 (bed_n self)) = bed_n self"
    using lx n by (simp add: py_slice_def)
  then show ?thesis using X(1) col by (simp add: assign_column_def)
qed

lemma snp_column_cursor [simp]: "snp_column (self\<lparr>currentSNP := c'\<rparr>) c = snp_column self c"
  by (simp add: snp_column_def split: sum.splits)

lemma nextSNPs_loop_valid:
  "bed_valid self \<Longrightarrow> currentSNP self + k \<le> bed_m self \<Longrightarrow>
   nextSNPs_loop self k snps =
     (Inr (snps @ map (snp_column self) [currentSNP self..<currentSNP self + k]),
      self\<lparr>currentSNP := currentSNP self + k\<rparr>)"
proof (induction k arbitrary: self snps)
  case 0
  show ?case by simp
next
  case (Suc k)
  let ?c = "currentSNP self"
  let ?s' = "self\<lparr>currentSNP := ?c + 1\<rparr>"
  have c: "?c < bed_m self" using Suc.prems(2) by simp
  obtain X where X: "decode (py_slice (geno self) (2 * ?c * nru self) (2 * (?c + 1) * nru self)) = Inr X"
    "assign_column (bed_n self) (py_slice X 0 (bed_n self)) = Inr (snp_column self ?c)"
    using loop_body [OF Suc.prems(1) c] by auto
  have v': "bed_valid ?s'" using Suc.prems by (simp add: bed_valid_def)
  have k': "currentSNP ?s' + k \<le> bed_m ?s'" using Suc.prems(2) by simp
  have step: "nextSNPs_loop self (Suc k) snps = nextSNPs_loop ?s' k (snps @ [snp_column self ?c])"
    using c X by simp
  have up: "[?c..<?c + Suc k] = ?c # [?c + 1..<?c + 1 + k]"
    by (simp add: upt_conv_Cons)
  show ?case
    unfolding step Suc.IH [OF v' k'] up by simp
qed

lemma nextSNPs_valid:
  assumes "bed_valid self" "currentSNP self + num \<le> bed_m self"
  shows "nextSNPs self num =
     (Inr (map (snp_column self) [currentSNP self..<currentSNP self + num]),
      self\<lparr>currentSNP := currentSNP self + num\<rparr>)"
  using nextSNPs_loop_valid [OF assms, of "[]"] by (simp add: nextSNPs_def)

lemma bed_valid_advance:
  "bed_valid self \<Longrightarrow> c \<le> bed_m self \<Longrightarrow> bed_valid (self\<lparr>currentSNP := c\<rparr>)"
  by (simp add: bed_valid_def)

lemma PlinkBEDFile_valid:
  "PlinkBEDFile fname file n_samples snp_list = Inr self \<Longrightarrow>
   bed_valid self \<and> currentSNP self = 0 \<and> bed_m self = length snp_list \<and> bed_n self = n_samples"
  unfolding PlinkBEDFile_def bed_read_def test_length_def Let_def bed_valid_def
  by (auto split: if_splits sum.splits)

text \<open>
  C10. For a .bed object as construction leaves it and \<^verbatim>\<open>nextSNPs\<close> keeps it
  (\<open>bed_valid\<close>), and \<open>a + b\<close> no more than the SNPs past the cursor, \<^verbatim>\<open>nextSNPs(a)\<close>
  and then \<^verbatim>\<open>nextSNPs(b)\<close> both return; their matrices side by side are the matrix of
  \<^verbatim>\<open>nextSNPs(a + b)\<close> from the same cursor, which ends in the same state; and each call
  moves the cursor by the number of SNPs asked for.
\<close>

theorem nextSNPs_compose:
  assumes "bed_valid self" and "currentSNP self + a + b \<le> bed_m self"
  shows "\<exists>A B. fst (nextSNPs self a) = Inr A \<and>
               fst (nextSNPs (snd (nextSNPs self a)) b) = Inr B \<and>
               nextSNPs self (a + b) = (Inr (A @ B), snd (nextSNPs (snd (nextSNPs self a)) b)) \<and>
               currentSNP (snd (nextSNPs self a)) = currentSNP self + a \<and>
               currentSNP (snd (nextSNPs (snd (nextSNPs self a)) b)) =
                 currentSNP (snd (nextSNPs self a)) + b"
proof -
  let ?c = "currentSNP self"
  let ?s1 = "self\<lparr>currentSNP := ?c + a\<rparr>"
  have a: "nextSNPs self a = (Inr (map (snp_column self) [?c..<?c + a]), ?s1)"
    using assms by (intro nextSNPs_valid) auto
  have v1: "bed_valid ?s1" using assms by (intro bed_valid_advance) auto
  have b: "nextSNPs ?s1 b =
      (Inr (map (snp_column self) [?c + a..<?c + a + b]), self\<lparr>currentSNP := ?c + (a + b)\<rparr>)"
    using nextSNPs_valid [OF v1, of b] assms(2) by (simp add: add.assoc)
  have ab: "nextSNPs self (a + b) =
      (Inr (map (snp_column self) [?c..<?c + (a + b)]), self\<lparr>currentSNP := ?c + (a + b)\<rparr>)"
    using assms by (intro nextSNPs_valid) auto
  have split: "[?c..<?c + (a + b)] = [?c..<?c + a] @ [?c + a..<?c + a + b]"
    by (metis add.assoc upt_add_eq_append le_add1)
  show ?thesis
    unfolding a split
    by (intro exI [of _ "map (snp_column self) [?c..<?c + a]"]
          exI [of _ "map (snp_column self) [?c + a..<?c + a + b]"])
       (simp add: b ab split)
qed

theorem nextSNPs_compose_witness:
  "nextSNPs \<lparr>bed_m = 2, bed_n = 1, currentSNP = 0, nru = 4,
              geno = [False, True, False, False, False, False, False, False,
                      True, True, False, False, False, False, False, False]\<rparr> (1 + 1) =
     (Inr ([[Some 1]] @ [[Some 2]]),
      \<lparr>bed_m = 2, bed_n = 1, currentSNP = 2, nru = 4,
        geno = [False, True, False, False, False, False, False, False,
                True, True, False, False, False, False, False, False]\<rparr>)"
proof -
  let ?g = "[False, True, False, False, False, False, False, False,
             True, True, False, False, False, False, False, False]"
  let ?s = "\<lparr>bed_m = 2, bed_n = 1, currentSNP = 0, nru = 4, geno = ?g\<rparr>"
  let ?s1 = "\<lparr>bed_m = 2, bed_n = 1, currentSNP = 1, nru = 4, geno = ?g\<rparr>"
  let ?s2 = "\<lparr>bed_m = 2, bed_n = 1, currentSNP = 2, nru = 4, geno = ?g\<rparr>"
  have v: "bed_valid ?s"
    by (simp add: bed_valid_def)
  have c: "currentSNP ?s + 1 + 1 \<le> bed_m ?s"
    by simp
  have w1: "nextSNPs ?s 1 = (Inr [[Some 1]], ?s1)"
    by code_simp
  have w2: "nextSNPs ?s1 1 = (Inr [[Some 2]], ?s2)"
    by code_simp
  from nextSNPs_compose [OF v c] obtain A B where
    ab: "fst (nextSNPs ?s 1) = Inr A"
      "fst (nextSNPs (snd (nextSNPs ?s 1)) 1) = Inr B"
      "nextSNPs ?s (1 + 1) = (Inr (A @ B), snd (nextSNPs (snd (nextSNPs ?s 1)) 1))"
    by blast
  have A: "A = [[Some 1]]"
    using ab(1) unfolding w1 by simp
  have B: "B = [[Some 2]]"
    using ab(2) unfolding w1 snd_conv w2 by simp
  show ?thesis
    using ab(3) unfolding w1 snd_conv w2 A B .
qed

lemma length_hdr: "length hdr_bits = 24"
  by (simp add: hdr_bits_def bitarray_def)

lemma hdr_take: "take 16 (hdr_bits @ g) = bitarray ''0011011011011000''"
  by (simp add: hdr_bits_def bitarray_def)

lemma hdr_mid: "take 8 (drop 16 (hdr_bits @ g)) = bitarray ''10000000''"
  by (simp add: hdr_bits_def bitarray_def)

lemma hdr_drop: "drop 24 (hdr_bits @ g) = g"
  by (simp add: hdr_bits_def bitarray_def)

lemma encode_bed_hdr: "encode_bed G = pack_bits (hdr_bits @ concat (map encode_snp G))"
  by (simp add: encode_bed_def hdr_bits_def)

lemma encode_bed_bits:
  assumes cols: "\<forall>col\<in>set G. length col = n_samples"
  shows "fromfile (encode_bed G) = hdr_bits @ concat (map encode_snp G)"
    and "length (concat (map encode_snp G)) = length G * (2 * pad4 n_samples)"
    and "3 \<le> length (encode_bed G)"
proof -
  let ?g = "concat (map encode_snp G)"
  show lg: "length ?g = length G * (2 * pad4 n_samples)"
    using cols by (intro length_concat_const) (simp add: length_encode_snp)
  obtain q where q: "pad4 n_samples = 4 * q"
    using pad4_dvd [of n_samples] by (auto elim: dvdE)
  have g8: "8 dvd length ?g"
    unfolding lg q by simp
  have lb: "length (hdr_bits @ ?g) = 24 + length ?g"
    by (simp only: length_append length_hdr)
  have d8: "8 dvd length (hdr_bits @ ?g)"
    unfolding lb using g8 by presburger
  show "fromfile (encode_bed G) = hdr_bits @ ?g"
    unfolding encode_bed_hdr using d8 by (rule fromfile_pack_bits)
  have "length (encode_bed G) = (24 + length ?g + 7) div 8"
    by (simp only: encode_bed_hdr length_pack_bits lb)
  then show "3 \<le> length (encode_bed G)"
    by presburger
qed


lemma encode_bed_read:
  assumes cols: "\<forall>col\<in>set G. length col = n_samples"
    and fn: "endswith fname ''.bed''"
    and m: "length snp_list = length G"
  shows "PlinkBEDFile fname (encode_bed G) n_samples snp_list =
       Inr \<lparr>bed_m = length snp_list, bed_n = n_samples, currentSNP = 0, nru = pad4 n_samples,
            geno = concat (map encode_snp G)\<rparr>"
proof -
  let ?g = "concat (map encode_snp G)"
  note bits = encode_bed_bits [OF cols]
  have magic: "fromfile (take 2 (encode_bed G)) = bitarray ''0011011011011000''"
    unfolding fromfile_take bits(1) using hdr_take [of ?g] by simp
  have mode: "fromfile (take 1 (drop 2 (encode_bed G))) = bitarray ''10000000''"
    unfolding fromfile_take fromfile_drop bits(1) using hdr_mid [of ?g] by simp
  have gen: "fromfile (drop 3 (encode_bed G)) = ?g"
    unfolding fromfile_drop bits(1) using hdr_drop [of ?g] by simp
  have len: "\<not> length (encode_bed G) < 2" "\<not> length (encode_bed G) < 3"
    using bits(3) by simp_all
  have tl: "test_length ?g (length snp_list) (pad4 n_samples) = Inr ()"
    unfolding test_length_def Let_def bits(2) m by simp
  have rd: "bed_read fname (encode_bed G) (length snp_list) n_samples = Inr (pad4 n_samples, ?g)"
    unfolding bed_read_def Let_def magic mode gen
    using fn len tl by (simp add: pad4_def)
  show ?thesis
    unfolding PlinkBEDFile_def rd by simp
qed

text \<open>
  C5. For every matrix of \<open>n\<close> samples and \<open>m\<close> SNPs (given by its columns, one per SNP)
  with entries 0, 1, 2 or missing, the encoded file (two-bit codes, each SNP padded to a
  multiple of 4 samples, after the magic number and the mode byte) is accepted by
  \<^verbatim>\<open>PlinkBEDFile\<close> for \<open>n\<close> samples and \<open>m\<close> SNP identifiers, and \<^verbatim>\<open>nextSNPs(m)\<close>
  returns the matrix, missing as not-a-number.
\<close>

theorem bed_roundtrip:
  assumes cols: "\<forall>col\<in>set G. length col = n_samples \<and> set col \<subseteq> {Some 0, Some 1, Some 2, None}"
    and m: "length snp_list = length G"
    and fn: "endswith fname ''.bed''"
  shows "\<exists>self. PlinkBEDFile fname (encode_bed G) n_samples snp_list = Inr self \<and>
                fst (nextSNPs self (length G)) = Inr G"
proof -
  let ?s = "\<lparr>bed_m = length snp_list, bed_n = n_samples, currentSNP = 0, nru = pad4 n_samples,
            geno = concat (map encode_snp G)\<rparr>"
  have rd: "PlinkBEDFile fname (encode_bed G) n_samples snp_list = Inr ?s"
    using cols m fn by (intro encode_bed_read) auto
  have v: "bed_valid ?s" using PlinkBEDFile_valid [OF rd] by simp
  have nx: "nextSNPs ?s (length G) = (Inr (map (snp_column ?s) [0..<length G]), ?s\<lparr>currentSNP := length G\<rparr>)"
    using nextSNPs_valid [OF v, of "length G"] m by simp
  have col: "snp_column ?s c = G ! c" if c: "c < length G" for c
  proof -
    have L: "\<forall>x\<in>set G. length (encode_snp x) = 2 * pad4 n_samples"
      using cols by (simp add: length_encode_snp)
    have "py_slice (concat (map encode_snp G)) (c * (2 * pad4 n_samples)) ((c + 1) * (2 * pad4 n_samples))
        = encode_snp (G ! c)"
      using L c by (rule slice_concat)
    then have sl: "py_slice (geno ?s) (2 * c * nru ?s) (2 * (c + 1) * nru ?s) = encode_snp (G ! c)"
      by (simp add: mult.assoc mult.left_commute mult.commute)
    have gc: "length (G ! c) = n_samples" "set (G ! c) \<subseteq> {Some 0, Some 1, Some 2, None}"
      using cols c by auto
    show ?thesis
      unfolding snp_column_def sl decode_encode_snp [OF gc(2)]
      by (simp add: py_slice_def gc(1))
  qed
  have "map (snp_column ?s) [0..<length G] = G"
    by (rule nth_equalityI) (simp_all add: col)
  then show ?thesis using rd nx by simp
qed




theorem bed_roundtrip_witness:
  "\<exists>self. PlinkBEDFile ''a.bed'' [108, 27, 1, 52, 58] 3 [''rs1'', ''rs2''] = Inr self \<and>
     fst (nextSNPs self 2) = Inr [[Some 0, None, Some 2], [Some 1, Some 1, Some 2]]"
proof -
  let ?G = "[[Some 0, None, Some 2], [Some 1, Some 1, Some 2]] :: dosage list list"
  have e: "encode_bed ?G = [108, 27, 1, 52, 58]"
    by code_simp
  have h1: "\<forall>col\<in>set ?G. length col = 3 \<and> set col \<subseteq> {Some 0, Some 1, Some 2, None}"
    by simp
  have h2: "length [''rs1'', ''rs2''] = length ?G"
    by simp
  have h3: "endswith ''a.bed'' ''.bed''"
    by (simp add: endswith_def)
  have l: "length ?G = 2"
    by simp
  show ?thesis
    using bed_roundtrip [OF h1 h2 h3] unfolding e l .
qed

section \<open>LD extraction index law: results\<close>

lemma tril_indices_Suc:
  "tril_indices (Suc n) = tril_indices n @ map (\<lambda>c. (n, c)) [0..<n]"
  by (simp add: tril_indices_def)

lemma length_tril_indices: "length (tril_indices n) = tri n"
  by (induction n) (simp_all add: tril_indices_Suc, simp add: tril_indices_def)

lemma tri_mono: "r \<le> n \<Longrightarrow> tri r \<le> tri n"
  by (induction n) (auto simp: le_Suc_eq)

lemma tri_bound: "c < r \<Longrightarrow> r < n \<Longrightarrow> tri r + c < tri n"
proof -
  assume c: "c < r" and r: "r < n"
  have "tri r + c < tri (Suc r)" using c by simp
  also have "\<dots> \<le> tri n" using r by (intro tri_mono) simp
  finally show ?thesis .
qed

lemma nth_tril_indices:
  "c < r \<Longrightarrow> r < n \<Longrightarrow> tril_indices n ! (tri r + c) = (r, c)"
proof (induction n)
  case 0
  then show ?case by simp
next
  case (Suc n)
  show ?case
  proof (cases "r < n")
    case True
    then have "tri r + c < length (tril_indices n)"
      using Suc.prems(1) by (simp add: length_tril_indices tri_bound)
    then show ?thesis
      using Suc.IH [OF Suc.prems(1) True] by (simp add: tril_indices_Suc nth_append)
  next
    case False
    then have r: "r = n" using Suc.prems(2) by simp
    show ?thesis
      using Suc.prems(1) unfolding r
      by (simp add: tril_indices_Suc nth_append length_tril_indices)
  qed
qed

lemma set_tril_indices: "set (tril_indices n) = {(r, c). c < r \<and> r < n}"
  by (auto simp: tril_indices_def)

lemma distinct_tril_indices: "distinct (tril_indices n)"
proof (induction n)
  case 0
  show ?case by (simp add: tril_indices_def)
next
  case (Suc n)
  have "distinct (map (\<lambda>c. (n, c)) [0..<n])"
    by (simp add: distinct_map inj_on_def)
  moreover have "set (tril_indices n) \<inter> set (map (\<lambda>c. (n, c)) [0..<n]) = {}"
    by (auto simp: set_tril_indices)
  ultimately show ?case using Suc by (simp add: tril_indices_Suc)
qed

lemma is_mat_assign: "is_mat n M \<Longrightarrow> is_mat n (assign_at ((r, c), v) M)"
proof (cases "r < length M")
  case True
  assume m: "is_mat n M"
  have "length ((M ! r)[c := v]) = n"
    using m True by (simp add: is_mat_def list_all_iff)
  then show ?thesis
    using m set_update_subset_insert [of M r "(M ! r)[c := v]"]
    by (auto simp: is_mat_def assign_at_def list_all_iff)
next
  case False
  assume "is_mat n M"
  then show ?thesis using False by (simp add: assign_at_def list_update_beyond)
qed

lemma assign_at_other:
  "(r, c) \<noteq> (r', c') \<Longrightarrow> assign_at ((r', c'), v) M ! r ! c = M ! r ! c"
  by (cases "r' < length M"; cases "r = r'") (auto simp: assign_at_def list_update_beyond)

lemma assign_at_same:
  "is_mat n M \<Longrightarrow> r < n \<Longrightarrow> c < n \<Longrightarrow> assign_at ((r, c), v) M ! r ! c = v"
  by (auto simp: assign_at_def is_mat_def list_all_iff)

lemma scatter_Cons:
  "scatter (p # ps) (v # vs) M = scatter ps vs (assign_at (p, v) M)"
  by (simp add: scatter_def)

lemma scatter_is_mat:
  "is_mat n M \<Longrightarrow> length vs = length ps \<Longrightarrow> is_mat n (scatter ps vs M)"
proof (induction ps arbitrary: vs M)
  case Nil
  then show ?case by (simp add: scatter_def)
next
  case (Cons p ps)
  then obtain v vs' where vs: "vs = v # vs'" by (cases vs) auto
  obtain r c where p: "p = (r, c)" by (cases p)
  show ?case
    unfolding vs scatter_Cons p
    using Cons.prems vs by (intro Cons.IH is_mat_assign) auto
qed

lemma scatter_other:
  "(r, c) \<notin> set ps \<Longrightarrow> length vs = length ps \<Longrightarrow> scatter ps vs M ! r ! c = M ! r ! c"
proof (induction ps arbitrary: vs M)
  case Nil
  then show ?case by (simp add: scatter_def)
next
  case (Cons p ps)
  then obtain v vs' where vs: "vs = v # vs'" by (cases vs) auto
  obtain r' c' where p: "p = (r', c')" by (cases p)
  have "scatter ps vs' (assign_at (p, v) M) ! r ! c = assign_at (p, v) M ! r ! c"
    using Cons.prems vs by (intro Cons.IH) auto
  also have "\<dots> = M ! r ! c"
    using Cons.prems(1) unfolding p by (intro assign_at_other) auto
  finally show ?case unfolding vs scatter_Cons .
qed

lemma scatter_nth:
  assumes "is_mat n M" "distinct ps" "\<forall>p\<in>set ps. fst p < n \<and> snd p < n"
    "length vs = length ps" "k < length ps"
  shows "scatter ps vs M ! fst (ps ! k) ! snd (ps ! k) = vs ! k"
  using assms
proof (induction ps arbitrary: vs M k)
  case Nil
  then show ?case by simp
next
  case (Cons p ps)
  then obtain v vs' where vs: "vs = v # vs'" by (cases vs) auto
  obtain r c where p: "p = (r, c)" by (cases p)
  have m': "is_mat n (assign_at (p, v) M)"
    unfolding p using Cons.prems(1) by (rule is_mat_assign)
  show ?case
  proof (cases k)
    case 0
    have "scatter ps vs' (assign_at (p, v) M) ! r ! c = assign_at (p, v) M ! r ! c"
      using Cons.prems vs p by (intro scatter_other) auto
    also have "\<dots> = v"
      unfolding p using Cons.prems(1,3) p by (intro assign_at_same) auto
    finally show ?thesis unfolding vs scatter_Cons using 0 p by simp
  next
    case (Suc j)
    have "scatter ps vs' (assign_at (p, v) M) ! fst (ps ! j) ! snd (ps ! j) = vs' ! j"
      using Cons.prems vs Suc m' by (intro Cons.IH) auto
    then show ?thesis unfolding vs scatter_Cons using Suc by simp
  qed
qed

lemma is_mat_zeros: "is_mat n (replicate n (replicate n 0))"
  by (simp add: is_mat_def list_all_iff)

lemma get_2d_matrix_entries:
  assumes len: "length vals = tri n"
  shows "\<exists>M. get_2d_matrix n (Tril vals) = Inr M \<and> length M = n \<and>
           (\<forall>r c. c < r \<longrightarrow> r < n \<longrightarrow> M ! r ! c = vals ! (tri r + c))"
proof -
  let ?Z = "replicate n (replicate n (0::real))"
  let ?L = "scatter (tril_indices n) vals ?Z"
  let ?S = "map (\<lambda>r. map (\<lambda>c. ?L ! r ! c + ?L ! c ! r) [0..<n]) [0..<n]"
  let ?M = "map (\<lambda>r. (?S ! r)[r := 1]) [0..<n]"
  have g: "get_2d_matrix n (Tril vals) = Inr ?M"
    by (simp add: get_2d_matrix_def len length_tril_indices Let_def)
  have low: "?L ! r ! c = vals ! (tri r + c)" if "c < r" "r < n" for r c
  proof -
    have k: "tri r + c < length (tril_indices n)"
      using that by (simp add: length_tril_indices tri_bound)
    have "?L ! fst (tril_indices n ! (tri r + c)) ! snd (tril_indices n ! (tri r + c))
            = vals ! (tri r + c)"
      using is_mat_zeros distinct_tril_indices _ _ k
      by (rule scatter_nth) (auto simp: set_tril_indices len length_tril_indices)
    then show ?thesis by (simp add: nth_tril_indices that)
  qed
  have up: "?L ! c ! r = 0" if "c < r" "r < n" for r c
  proof -
    have "?L ! c ! r = ?Z ! c ! r"
      using that by (intro scatter_other) (auto simp: set_tril_indices len length_tril_indices)
    then show ?thesis using that by simp
  qed
  have "?M ! r ! c = vals ! (tri r + c)" if "c < r" "r < n" for r c
    using that low [OF that] up [OF that] by simp
  then show ?thesis using g by auto
qed

lemma cumsum_from_nth:
  "j < length xs \<Longrightarrow> cumsum_from acc xs ! j = acc + sum_list (take (Suc j) xs)"
proof (induction xs arbitrary: acc j)
  case Nil
  then show ?case by simp
next
  case (Cons x xs)
  show ?case
  proof (cases j)
    case 0
    then show ?thesis by simp
  next
    case (Suc i)
    then have "i < length xs" using Cons.prems by simp
    then show ?thesis using Suc by (simp add: Cons.IH)
  qed
qed

lemma length_cumsum_from: "length (cumsum_from acc xs) = length xs"
  by (induction xs arbitrary: acc) auto

lemma sum_list_upt_tri: "sum_list [0..<k] = tri k"
  by (induction k) auto

lemma np_cumsum_nth: "j < k \<Longrightarrow> np_cumsum [0..<k] ! j = tri (Suc j)"
proof -
  assume j: "j < k"
  have "np_cumsum [0..<k] ! j = sum_list (take (Suc j) [0..<k])"
    using j by (simp add: np_cumsum_def cumsum_from_nth del: upt_Suc)
  also have "take (Suc j) [0..<k] = [0..<Suc j]"
    using j by (simp add: take_upt del: upt_Suc)
  finally show ?thesis by (simp only: sum_list_upt_tri)
qed

lemma cum_sum_lookup:
  assumes "0 < a" "a < block_size"
  shows "np_index (np_cumsum [0..<block_size - 1]) (int a - 1) = Inr (tri a)"
proof -
  obtain j where j: "a = Suc j" using assms(1) by (cases a) auto
  have jb: "j < block_size - 1" using assms(2) j by simp
  have len: "length (np_cumsum [0..<block_size - 1]) = block_size - 1"
    by (simp add: np_cumsum_def length_cumsum_from)
  have k: "int (Suc j) - 1 = int j" by simp
  have "np_index (np_cumsum [0..<block_size - 1]) (int j) = Inr (np_cumsum [0..<block_size - 1] ! j)"
    unfolding np_index_def Let_def len using jb by simp
  then show ?thesis
    unfolding j k np_cumsum_nth [OF jb] .
qed

lemma offset_rows_eq:
  "\<forall>i\<in>set is. 0 < idxs ! i \<and> idxs ! i < block_size \<Longrightarrow>
   offset_rows (np_cumsum [0..<block_size - 1]) idxs is =
     Inr (map (\<lambda>i. map (\<lambda>c. tri (idxs ! i) + c) (take i idxs)) is)"
proof (induction "is")
  case Nil
  show ?case by simp
next
  case (Cons i "is")
  have 1: "np_index (np_cumsum [0..<block_size - 1]) (int (idxs ! i) - 1) = Inr (tri (idxs ! i))"
    using Cons.prems by (intro cum_sum_lookup) auto
  have 2: "offset_rows (np_cumsum [0..<block_size - 1]) idxs is =
     Inr (map (\<lambda>i. map (\<lambda>c. tri (idxs ! i) + c) (take i idxs)) is)"
    using Cons.prems by (intro Cons.IH) auto
  show ?case
    unfolding offset_rows.simps 1 2 by (simp add: py_slice_def)
qed

lemma sorted_idxs_lt:
  "sorted_wrt (<) idxs \<Longrightarrow> j < i \<Longrightarrow> i < length idxs \<Longrightarrow> idxs ! j < (idxs ! i :: nat)"
  by (simp add: sorted_wrt_nth_less)

lemma get_lower_triangle_rows:
  "get_lower_triangle M = concat (map (\<lambda>r. map (\<lambda>c. M ! r ! c) [0..<r]) [0..<length M])"
  by (simp add: get_lower_triangle_def tril_indices_def map_concat comp_def)

lemma concat_drop_first_empty:
  "0 < n \<Longrightarrow> f 0 = [] \<Longrightarrow> concat (map f [0..<n]) = concat (map f [1..<n])"
  by (simp add: upt_conv_Cons)

lemma tri_closed: "tri n = n * (n - 1) div 2"
proof (induction n)
  case 0
  show ?case by simp
next
  case (Suc n)
  have "even (n * (n - 1))" by (cases n) auto
  then have "n * (n - 1) div 2 + n = (n * (n - 1) + 2 * n) div 2" by simp
  also have "n * (n - 1) + 2 * n = Suc n * n" by (cases n) (auto simp: algebra_simps)
  finally show ?case using Suc by simp
qed

lemma map_nth_upt_take: "a \<le> length xs \<Longrightarrow> map (\<lambda>b. f (xs ! b)) [0..<a] = map f (take a xs)"
proof -
  assume a: "a \<le> length xs"
  have "map f (take a xs) = map f (take a (map (nth xs) [0..<length xs]))"
    by (simp add: map_nth)
  also have "\<dots> = map f (map (nth xs) [0..<a])"
    using a by (simp add: take_map take_upt del: map_map)
  finally show ?thesis by (simp add: comp_def)
qed

lemma take_indices_ok:
  "\<forall>k\<in>set idx. k < length xs \<Longrightarrow> take_indices xs idx = Inr (map (\<lambda>k. xs ! k) idx)"
  by (simp add: take_indices_def list_all_iff)

text \<open>
  C6. For the strict lower triangle of a block of size \<open>block_size\<close> (an array of
  \<open>block_size * (block_size - 1) / 2\<close> entries) and indices \<open>idxs\<close> in ascending order
  below \<open>block_size\<close>, at least two of them, \<^verbatim>\<open>_extract_by_idxs\<close> returns the strict
  lower triangle of the sub-matrix at rows and columns \<open>idxs\<close> of the dense block that
  \<^verbatim>\<open>_get_2d_matrix\<close> reconstructs; for a single index it returns the empty array.
\<close>

theorem extract_by_idxs_law:
  assumes len: "length tril = block_size * (block_size - 1) div 2"
    and sorted: "sorted_wrt (<) idxs"
    and rng: "\<forall>i\<in>set idxs. i < block_size"
    and two: "2 \<le> length idxs"
  shows "(\<exists>M. get_2d_matrix block_size (Tril tril) = Inr M \<and>
            extract_by_idxs (Tril tril) block_size idxs =
              Inr (Tril (get_lower_triangle (submatrix M idxs)))) \<and>
         extract_by_idxs dat block_size [i] = Inr (Tril [])"
proof
  let ?n = "length idxs"
  have len': "length tril = tri block_size" using len by (simp add: tri_closed)
  obtain M where M: "get_2d_matrix block_size (Tril tril) = Inr M"
    and Ment: "\<And>r c. c < r \<Longrightarrow> r < block_size \<Longrightarrow> M ! r ! c = tril ! (tri r + c)"
    using get_2d_matrix_entries [OF len'] by blast
  have lt: "idxs ! j < idxs ! i" if "j < i" "i < ?n" for i j
    using sorted that by (simp add: sorted_wrt_nth_less)
  have inb: "idxs ! i < block_size" if "i < ?n" for i
    using rng that by simp
  let ?row = "\<lambda>i. map (\<lambda>c. tri (idxs ! i) + c) (take i idxs)"
  have rows: "offset_rows (np_cumsum [0..<block_size - 1]) idxs [1..<?n] = Inr (map ?row [1..<?n])"
  proof (rule offset_rows_eq, rule ballI)
    fix i assume "i \<in> set [1..<?n]"
    then have i: "0 < i" "i < ?n" by auto
    show "0 < idxs ! i \<and> idxs ! i < block_size"
      using lt [OF i] inb [OF i(2)] by simp
  qed
  have ne: "0 < length (map ?row [1..<?n])" using two by simp
  have inrange: "\<forall>k\<in>set (concat (map ?row [1..<?n])). k < length tril"
  proof
    fix k assume "k \<in> set (concat (map ?row [1..<?n]))"
    then obtain i c where i: "0 < i" "i < ?n" and c: "c \<in> set (take i idxs)" and k: "k = tri (idxs ! i) + c"
      by (auto simp: Suc_le_eq)
    obtain j where j: "j < i" "c = idxs ! j"
      using c i(2) by (auto simp: in_set_conv_nth)
    have "c < idxs ! i" using lt [OF j(1) i(2)] j(2) by simp
    then show "k < length tril"
      unfolding k len' using inb [OF i(2)] by (rule tri_bound)
  qed
  have ex: "extract_by_idxs (Tril tril) block_size idxs =
      Inr (Tril (map (\<lambda>k. tril ! k) (concat (map ?row [1..<?n]))))"
  proof -
    have fi: "fancy_index (Tril tril) (concat (map ?row [1..<?n])) =
        Inr (Tril (map (\<lambda>k. tril ! k) (concat (map ?row [1..<?n]))))"
      unfolding fancy_index_def block.case take_indices_ok [OF inrange] sum.case ..
    show ?thesis
      unfolding extract_by_idxs_def Let_def rows sum.case if_P [OF ne] fi ..
  qed
  have lsub: "length (submatrix M idxs) = ?n" by (simp add: submatrix_def)
  have rowsub: "map (\<lambda>c. submatrix M idxs ! a ! c) [0..<a] = map (\<lambda>k. tril ! k) (?row a)"
    if a: "a \<in> set [1..<?n]" for a
  proof -
    have a': "0 < a" "a < ?n" using a by auto
    have "map (\<lambda>c. submatrix M idxs ! a ! c) [0..<a] = map (\<lambda>b. tril ! (tri (idxs ! a) + idxs ! b)) [0..<a]"
    proof (rule map_cong [OF refl])
      fix b assume "b \<in> set [0..<a]"
      then have b: "b < a" by simp
      have "submatrix M idxs ! a ! b = M ! (idxs ! a) ! (idxs ! b)"
        using a' b by (simp add: submatrix_def)
      also have "\<dots> = tril ! (tri (idxs ! a) + idxs ! b)"
        using lt [OF b a'(2)] inb [OF a'(2)] by (rule Ment)
      finally show "submatrix M idxs ! a ! b = tril ! (tri (idxs ! a) + idxs ! b)" .
    qed
    also have "\<dots> = map (\<lambda>c. tril ! (tri (idxs ! a) + c)) (take a idxs)"
      using a'(2) by (intro map_nth_upt_take) simp
    finally show ?thesis by (simp add: comp_def)
  qed
  have "get_lower_triangle (submatrix M idxs)
      = concat (map (\<lambda>r. map (\<lambda>c. submatrix M idxs ! r ! c) [0..<r]) [0..<?n])"
    unfolding get_lower_triangle_rows lsub ..
  also have "\<dots> = concat (map (\<lambda>r. map (\<lambda>c. submatrix M idxs ! r ! c) [0..<r]) [1..<?n])"
    using two by (intro concat_drop_first_empty) auto
  also have "\<dots> = concat (map (\<lambda>a. map (\<lambda>k. tril ! k) (?row a)) [1..<?n])"
    using rowsub by (metis (no_types, lifting) map_cong)
  also have "\<dots> = map (\<lambda>k. tril ! k) (concat (map ?row [1..<?n]))"
    by (simp add: map_concat comp_def)
  finally have "get_lower_triangle (submatrix M idxs) = map (\<lambda>k. tril ! k) (concat (map ?row [1..<?n]))" .
  then show "\<exists>M. get_2d_matrix block_size (Tril tril) = Inr M \<and>
            extract_by_idxs (Tril tril) block_size idxs =
              Inr (Tril (get_lower_triangle (submatrix M idxs)))"
    using M ex by simp
next
  show "extract_by_idxs dat block_size [i] = Inr (Tril [])"
    by (simp add: extract_by_idxs_def)
qed

theorem extract_by_idxs_law_witness:
  "get_2d_matrix 4 (Tril [10, 20, 21, 30, 31, 32]) =
     Inr [[1, 10, 20, 30], [10, 1, 21, 31], [20, 21, 1, 32], [30, 31, 32, 1]] \<and>
   extract_by_idxs (Tril [10, 20, 21, 30, 31, 32]) 4 [0, 2, 3] = Inr (Tril [20, 30, 32])"
proof -
  have g: "get_2d_matrix 4 (Tril [10, 20, 21, 30, 31, 32]) =
     Inr [[1, 10, 20, 30], [10, 1, 21, 31], [20, 21, 1, 32], [30, 31, 32, 1]]"
    by code_simp
  have t: "get_lower_triangle (submatrix [[1, 10, 20, 30], [10, 1, 21, 31], [20, 21, 1, 32], [30, 31, 32, 1]] [0, 2, 3])
      = [20, 30, 32]"
    by code_simp
  have h1: "length [10, 20, 21, 30, 31, 32 :: real] = 4 * (4 - 1) div 2" by simp
  have h2: "sorted_wrt (<) [0, 2, 3 :: nat]" by simp
  have h3: "\<forall>i\<in>set [0, 2, 3 :: nat]. i < 4" by simp
  have h4: "2 \<le> length [0, 2, 3 :: nat]" by simp
  show ?thesis
    using extract_by_idxs_law [OF h1 h2 h3 h4] unfolding g by (simp add: t)
qed

section \<open>LD matrix operations: results\<close>

lemma length_ranges_from: "length (ranges_from a sizes) = length sizes"
  by (induction sizes arbitrary: a) auto

lemma ranges_from_nth:
  "k < length sizes \<Longrightarrow>
   ranges_from a sizes ! k = (a + sum_list (take k sizes), a + sum_list (take (Suc k) sizes))"
proof (induction sizes arbitrary: a k)
  case Nil
  then show ?case by simp
next
  case (Cons x sizes)
  show ?case
  proof (cases k)
    case 0
    then show ?thesis by simp
  next
    case (Suc j)
    then have "j < length sizes" using Cons.prems by simp
    then show ?thesis using Suc by (simp add: Cons.IH add.assoc)
  qed
qed

lemma sum_list_take_le: "sum_list (take k xs) \<le> sum_list (xs :: nat list)"
proof -
  have "sum_list xs = sum_list (take k xs) + sum_list (drop k xs)"
    by (metis append_take_drop_id sum_list_append)
  then show ?thesis by simp
qed

lemma sum_value_counts: "sum_list (value_counts_sorted labels) = length labels"
proof -
  have d: "distinct (sort (remdups labels))" by simp
  have "sum_list (value_counts_sorted labels) = sum (count_list labels) (set (sort (remdups labels)))"
    unfolding value_counts_sorted_def using d by (simp add: sum_list_distinct_conv_sum_set)
  also have "\<dots> = sum (count_list labels) (set labels)" by simp
  also have "\<dots> = length labels" by (rule sum_count_set) auto
  finally show ?thesis .
qed

lemma value_counts_pos: "x \<in> set (value_counts_sorted labels) \<Longrightarrow> 0 < x"
  using count_list_0_iff [of labels] by (fastforce simp: value_counts_sorted_def)

lemma length_le_sum_list: "\<forall>x\<in>set xs. 0 < x \<Longrightarrow> length xs \<le> sum_list (xs :: nat list)"
  by (induction xs) auto

lemma block_count_le_rows: "length (value_counts_sorted labels) \<le> length labels"
  using length_le_sum_list [of "value_counts_sorted labels"] value_counts_pos
  by (simp add: sum_value_counts)

lemma get_2d_matrix_is_mat: "get_2d_matrix n blk = Inr M \<Longrightarrow> is_mat n M"
  by (auto simp: get_2d_matrix_def Let_def is_mat_def list_all_iff split: block.splits if_splits)

lemma col_sq_sums_dense: "is_mat n M \<Longrightarrow> length (col_sq_sums (Dense M)) = n"
  by (cases M) (auto simp: col_sq_sums_def is_mat_def)

lemma truncate_loop_blocks:
  "truncate_loop eig self prop inv_flag is acc = Inr ld_bd \<Longrightarrow>
   \<exists>bs. ld_bd = acc @ bs \<and> length bs = length is \<and>
        (\<forall>k<length is. \<exists>M. bs ! k = Dense M \<and> is_mat (block_sizes self ! (is ! k)) M)"
proof (induction "is" arbitrary: acc)
  case Nil
  then show ?case by simp
next
  case (Cons i "is")
  from Cons.prems obtain blk where
    i: "i < length (block_sizes self)" and
    g: "get_2d_matrix (block_sizes self ! i) (data self ! i) = Inr blk"
    by (auto split: if_splits sum.splits)
  have m: "is_mat (block_sizes self ! i) blk" using g by (rule get_2d_matrix_is_mat)
  have lb: "length blk = block_sizes self ! i" using m by (simp add: is_mat_def)
  obtain B where B: "is_mat (block_sizes self ! i) B"
    and rec: "truncate_loop eig self prop inv_flag is (acc @ [Dense B]) = Inr ld_bd"
  proof (cases "prop = 1")
    case True
    then have "truncate_loop eig self prop inv_flag is (acc @ [Dense blk]) = Inr ld_bd"
      using Cons.prems i g by simp
    then show ?thesis using m that by blast
  next
    case False
    then obtain entry where e: "eig prop inv_flag blk = Inr entry"
      and r: "truncate_loop eig self prop inv_flag is
          (acc @ [Dense (map (\<lambda>r. map (\<lambda>c. entry r c) [0..<length blk]) [0..<length blk])]) = Inr ld_bd"
      using Cons.prems i g by (auto split: sum.splits)
    have "is_mat (block_sizes self ! i) (map (\<lambda>r. map (\<lambda>c. entry r c) [0..<length blk]) [0..<length blk])"
      by (simp add: is_mat_def list_all_iff lb)
    then show ?thesis using r that by blast
  qed
  from Cons.IH [OF rec] obtain bs where bs: "ld_bd = (acc @ [Dense B]) @ bs" "length bs = length is"
    "\<forall>k<length is. \<exists>M. bs ! k = Dense M \<and> is_mat (block_sizes self ! (is ! k)) M"
    by blast
  have "\<forall>k<length (i # is). \<exists>M. (Dense B # bs) ! k = Dense M \<and> is_mat (block_sizes self ! ((i # is) ! k)) M"
    using B bs(3) by (auto simp: nth_Cons split: nat.splits)
  then show ?case
    using bs(1,2) by (intro exI [of _ "Dense B # bs"]) simp
qed

lemma assign_slice_fit:
  "b \<le> e \<Longrightarrow> e \<le> length xs \<Longrightarrow> length vs = e - b \<Longrightarrow>
   assign_slice xs b e vs = Inr (take b xs @ vs @ drop e xs)"
  by (simp add: assign_slice_def Let_def min_def max_def)

lemma ldscore_loop_ok:
  "\<forall>k<length ranges. i + k < length (data self) \<and> i + k < length n_samples \<and>
       fst (ranges ! k) \<le> snd (ranges ! k) \<and> snd (ranges ! k) \<le> length ldscore \<and>
       length (col_sq_sums (data self ! (i + k))) = snd (ranges ! k) - fst (ranges ! k) \<Longrightarrow>
   \<exists>l. ldscore_loop self n_samples i ranges ldscore = Inr l \<and> length l = length ldscore"
proof (induction ranges arbitrary: i ldscore)
  case Nil
  show ?case by simp
next
  case (Cons r ranges)
  obtain b e where r: "r = (b, e)" by (cases r)
  have h0: "i < length (data self)" "i < length n_samples" "b \<le> e" "e \<le> length ldscore"
    "length (col_sq_sums (data self ! i)) = e - b"
    using Cons.prems [rule_format, of 0] r by simp_all
  let ?adj = "map (\<lambda>x. case np_div (1 - x) (real_of_int (n_samples ! i - 2)) of
                          None \<Rightarrow> None | Some q \<Rightarrow> Some (x - q)) (col_sq_sums (data self ! i))"
  let ?l = "take b ldscore @ ?adj @ drop e ldscore"
  have as: "assign_slice ldscore b e ?adj = Inr ?l"
    using h0 by (intro assign_slice_fit) simp_all
  have len: "length ?l = length ldscore" using h0 by simp
  have "\<forall>k<length ranges. Suc i + k < length (data self) \<and> Suc i + k < length n_samples \<and>
       fst (ranges ! k) \<le> snd (ranges ! k) \<and> snd (ranges ! k) \<le> length ?l \<and>
       length (col_sq_sums (data self ! (Suc i + k))) = snd (ranges ! k) - fst (ranges ! k)"
  proof (intro allI impI)
    fix k assume "k < length ranges"
    then have "Suc k < length (r # ranges)" by simp
    from Cons.prems [rule_format, OF this] show "Suc i + k < length (data self) \<and> Suc i + k < length n_samples \<and>
       fst (ranges ! k) \<le> snd (ranges ! k) \<and> snd (ranges ! k) \<le> length ?l \<and>
       length (col_sq_sums (data self ! (Suc i + k))) = snd (ranges ! k) - fst (ranges ! k)"
      unfolding len by simp
  qed
  from Cons.IH [OF this] obtain l where
    l: "ldscore_loop self n_samples (Suc i) ranges ?l = Inr l" "length l = length ?l"
    by blast
  have "ldscore_loop self n_samples i (r # ranges) ldscore = ldscore_loop self n_samples (Suc i) ranges ?l"
    using h0(1,2) as unfolding r by (simp add: Let_def)
  then show ?case using l len by simp
qed

lemma truncate_result:
  "truncate eig self prop inv_flag = (Inr (), self') \<Longrightarrow>
   \<not> is_truncated self \<and>
   (\<exists>ld_bd. truncate_loop eig self prop inv_flag [0..<length (data self)] [] = Inr ld_bd \<and>
            self' = self\<lparr>data := ld_bd, is_truncated := True\<rparr>)"
  by (auto simp: truncate_def split: if_splits sum.splits)

lemma sum_list_take_Suc:
  "k < length xs \<Longrightarrow> sum_list (take (Suc k) xs) = sum_list (take k xs) + (xs ! k :: nat)"
  by (simp add: take_Suc_conv_app_nth)

lemma estimate_after_truncate:
  assumes c: "ld_consistent self"
    and t: "truncate eig self prop inv_flag = (Inr (), self')"
  shows "\<exists>res. estimate_ldscore self' = Inr res"
proof -
  from truncate_result [OF t] obtain ld_bd where
    loop: "truncate_loop eig self prop inv_flag [0..<length (data self)] [] = Inr ld_bd"
    and s': "self' = self\<lparr>data := ld_bd, is_truncated := True\<rparr>"
    by blast
  from truncate_loop_blocks [OF loop] have
    lbd: "length ld_bd = length (data self)"
    and blocks: "\<forall>k<length (data self). \<exists>M. ld_bd ! k = Dense M \<and> is_mat (block_sizes self ! k) M"
    by auto
  let ?labels = "map ld_block (ld_info self)"
  let ?sizes = "value_counts_sorted ?labels"
  let ?ranges = "ranges_from 0 ?sizes"
  let ?N = "length (ld_info self)"
  have bs: "block_sizes self = ?sizes" and br: "block_ranges self = ?ranges"
    and ld: "length (data self) = length ?sizes"
    using c by (simp_all add: ld_consistent_def get_block_info_def Let_def)
  have cond: "\<forall>k<length ?ranges. 0 + k < length (data self') \<and>
       0 + k < length (map ld_N (ld_info self')) \<and>
       fst (?ranges ! k) \<le> snd (?ranges ! k) \<and>
       snd (?ranges ! k) \<le> length (replicate ?N (Some (0::real))) \<and>
       length (col_sq_sums (data self' ! (0 + k))) = snd (?ranges ! k) - fst (?ranges ! k)"
  proof (intro allI impI)
    fix k assume "k < length ?ranges"
    then have k: "k < length ?sizes" by (simp add: length_ranges_from)
    have rk: "?ranges ! k = (sum_list (take k ?sizes), sum_list (take (Suc k) ?sizes))"
      using ranges_from_nth [OF k, of 0] by simp
    have step: "sum_list (take (Suc k) ?sizes) = sum_list (take k ?sizes) + ?sizes ! k"
      using k by (rule sum_list_take_Suc)
    have le: "sum_list (take (Suc k) ?sizes) \<le> ?N"
      using sum_list_take_le [of "Suc k" ?sizes] by (simp add: sum_value_counts)
    have kN: "k < ?N"
      using k block_count_le_rows [of ?labels] by simp
    obtain M where M: "ld_bd ! k = Dense M" "is_mat (?sizes ! k) M"
      using blocks k ld bs by auto
    have cs: "length (col_sq_sums (ld_bd ! k)) = ?sizes ! k"
      unfolding M(1) using M(2) by (rule col_sq_sums_dense)
    show "0 + k < length (data self') \<and>
       0 + k < length (map ld_N (ld_info self')) \<and>
       fst (?ranges ! k) \<le> snd (?ranges ! k) \<and>
       snd (?ranges ! k) \<le> length (replicate ?N (Some (0::real))) \<and>
       length (col_sq_sums (data self' ! (0 + k))) = snd (?ranges ! k) - fst (?ranges ! k)"
      unfolding rk using k kN le cs step by (simp add: s' lbd ld)
  qed
  from ldscore_loop_ok [OF cond] obtain l where
    "ldscore_loop self' (map ld_N (ld_info self')) 0 ?ranges (replicate ?N (Some 0)) = Inr l"
    by blast
  then show ?thesis
    by (simp add: estimate_ldscore_def s' br Let_def)
qed





lemma merge_loop_raises: "ld_files \<noteq> [] \<Longrightarrow> \<exists>err. fst (merge_loop fs self ld_files) = Inl err"
  by (cases ld_files) (auto split: sum.splits)

lemma merge_raises: "\<exists>err. fst (merge fs self ld_files) = Inl err"
  using merge_loop_raises [of ld_files fs self] by (auto simp: merge_def)

lemma merge_keeps_flag: "is_truncated (snd (merge fs self ld_files)) = is_truncated self"
proof (cases "is_truncated self \<or> ld_files = []")
  case True
  then show ?thesis by (auto simp: merge_def)
next
  case False
  then obtain p ps where "ld_files = p # ps" by (cases ld_files) auto
  then show ?thesis using False by (auto simp: merge_def split: sum.splits)
qed

lemma extract_loop_flag:
  "is_truncated (snd (extract_loop self block_dict is keep_list)) = is_truncated self"
  by (induction self block_dict "is" keep_list rule: extract_loop.induct)
     (auto split: option.splits sum.splits)

lemma extract_keeps_flag: "is_truncated (snd (ld_extract self snps)) = is_truncated self"
proof (cases "is_truncated self")
  case True
  then show ?thesis by (simp add: ld_extract_def)
next
  case False
  let ?info = "filter (\<lambda>r. ld_SNP r \<in> set snps) (ld_info self)"
  let ?s = "self\<lparr>ld_info := ?info\<rparr>"
  let ?bd = "\<lambda>k. if k \<in> set (map ld_block ?info)
                   then Some (map ld_block_idx (filter (\<lambda>r. ld_block r = k) ?info)) else None"
  obtain res s2 where r: "extract_loop ?s ?bd [0..<length (data ?s)] [] = (res, s2)"
    by (cases "extract_loop ?s ?bd [0..<length (data ?s)] []")
  have "is_truncated s2 = is_truncated ?s"
    using extract_loop_flag [of ?s ?bd "[0..<length (data ?s)]" "[]"] r by simp
  then have f: "\<not> is_truncated s2" using False by simp
  show ?thesis
    using False f r unfolding ld_extract_def Let_def
    by (cases res) simp_all
qed

lemma merge_guard:
  assumes "\<not> is_truncated self" and "LDmatrix_init fs ld_prefix = Inr ld_i"
    and "ld_info ld_i \<noteq> []" and "ld_info self \<noteq> []"
  shows "fst (merge fs self (ld_prefix # ld_files)) =
     (if ld_CHR (hd (ld_info ld_i)) \<ge> ld_CHR (last (ld_info self)) then Inl MergeOrder
      else Inl KeyError)"
  using assms by (simp add: merge_def)

text \<open>
  C1. The claim: merge succeeds exactly when the first chromosome of every incoming matrix
  is greater than the last chromosome of the current one. The code: for a current matrix
  on chromosome 1 and the list of one prefix whose matrix is on chromosome 2, the guard
  \<^verbatim>\<open>first >= last\<close> holds and \<^verbatim>\<open>merge\<close> raises the ordering error; the object is as
  before the call. (By \<open>merge_guard\<close> and \<open>merge_raises\<close> the guard raises for the
  ascending order and for equal chromosomes, and a call that passes it stops at the
  KeyError of the next statement: no call returns.)
\<close>

theorem merge_rejects_ascending_chromosomes:
  "merge \<lparr>info_files = [''chr2'' \<mapsto> [\<lparr>ld_CHR = 2, ld_SNP = ''rs2'', ld_N = 100, ld_block = 0,
                                       ld_block_idx = 0\<rparr>]],
           dat_files = [''chr2'' \<mapsto> [Tril []]]\<rparr>
         \<lparr>ld_info = [\<lparr>ld_CHR = 1, ld_SNP = ''rs1'', ld_N = 100, ld_block = 0, ld_block_idx = 0\<rparr>],
           data = [Tril []], is_truncated = False, block_sizes = [1], block_ranges = [(0, 1)]\<rparr>
         [''chr2''] =
     (Inl MergeOrder,
      \<lparr>ld_info = [\<lparr>ld_CHR = 1, ld_SNP = ''rs1'', ld_N = 100, ld_block = 0, ld_block_idx = 0\<rparr>],
        data = [Tril []], is_truncated = False, block_sizes = [1], block_ranges = [(0, 1)]\<rparr>)"
  by (simp add: merge_def LDmatrix_init_def pd_unique_def np_diff_def)






text \<open>
  Behind the gate \<^verbatim>\<open>estimate_ldscore\<close> can still raise on a truncated matrix, through
  a slip of \<^verbatim>\<open>extract\<close>: its loop tests whether a position of \<^verbatim>\<open>self.data\<close> is a block
  label of the table. The block labels 0 and 2 (block 1 of the partition had no SNP) are
  loaded with two blocks of data; \<^verbatim>\<open>extract\<close> of both SNPs keeps only the block at
  position 0, the one position that is a label, so one block of data is left for two
  block ranges; \<^verbatim>\<open>truncate\<close> returns and sets the flag; \<^verbatim>\<open>estimate_ldscore\<close> passes
  its gate, reads \<^verbatim>\<open>self.data[1]\<close> and raises IndexError. On the matrix that
  \<^verbatim>\<open>truncate\<close> leaves of a matrix whose data and block sizes fit its info table it
  returns (\<open>estimate_after_truncate\<close>).
\<close>

lemma extract_position_label_slip:
  "LDmatrix_init
     \<lparr>info_files = [''chr1'' \<mapsto>
        [\<lparr>ld_CHR = 1, ld_SNP = ''rs1'', ld_N = 100, ld_block = 0, ld_block_idx = 0\<rparr>,
         \<lparr>ld_CHR = 1, ld_SNP = ''rs3'', ld_N = 100, ld_block = 2, ld_block_idx = 0\<rparr>]],
       dat_files = [''chr1'' \<mapsto> [Tril [], Tril []]]\<rparr> ''chr1'' =
     Inr \<lparr>ld_info =
        [\<lparr>ld_CHR = 1, ld_SNP = ''rs1'', ld_N = 100, ld_block = 0, ld_block_idx = 0\<rparr>,
         \<lparr>ld_CHR = 1, ld_SNP = ''rs3'', ld_N = 100, ld_block = 2, ld_block_idx = 0\<rparr>],
        data = [Tril [], Tril []], is_truncated = False, block_sizes = [1, 1],
        block_ranges = [(0, 1), (1, 2)]\<rparr> \<and>
   ld_extract
     \<lparr>ld_info =
        [\<lparr>ld_CHR = 1, ld_SNP = ''rs1'', ld_N = 100, ld_block = 0, ld_block_idx = 0\<rparr>,
         \<lparr>ld_CHR = 1, ld_SNP = ''rs3'', ld_N = 100, ld_block = 2, ld_block_idx = 0\<rparr>],
        data = [Tril [], Tril []], is_truncated = False, block_sizes = [1, 1],
        block_ranges = [(0, 1), (1, 2)]\<rparr> [''rs1'', ''rs3''] =
     (Inr (),
      \<lparr>ld_info =
        [\<lparr>ld_CHR = 1, ld_SNP = ''rs1'', ld_N = 100, ld_block = 0, ld_block_idx = 0\<rparr>,
         \<lparr>ld_CHR = 1, ld_SNP = ''rs3'', ld_N = 100, ld_block = 2, ld_block_idx = 0\<rparr>],
        data = [Tril []], is_truncated = False, block_sizes = [1, 1],
        block_ranges = [(0, 1), (1, 2)]\<rparr>) \<and>
   truncate (\<lambda>p i M. Inl LinAlgError)
     \<lparr>ld_info =
        [\<lparr>ld_CHR = 1, ld_SNP = ''rs1'', ld_N = 100, ld_block = 0, ld_block_idx = 0\<rparr>,
         \<lparr>ld_CHR = 1, ld_SNP = ''rs3'', ld_N = 100, ld_block = 2, ld_block_idx = 0\<rparr>],
        data = [Tril []], is_truncated = False, block_sizes = [1, 1],
        block_ranges = [(0, 1), (1, 2)]\<rparr> 1 False =
     (Inr (),
      \<lparr>ld_info =
        [\<lparr>ld_CHR = 1, ld_SNP = ''rs1'', ld_N = 100, ld_block = 0, ld_block_idx = 0\<rparr>,
         \<lparr>ld_CHR = 1, ld_SNP = ''rs3'', ld_N = 100, ld_block = 2, ld_block_idx = 0\<rparr>],
        data = [Dense [[1]]], is_truncated = True, block_sizes = [1, 1],
        block_ranges = [(0, 1), (1, 2)]\<rparr>) \<and>
   estimate_ldscore
     \<lparr>ld_info =
        [\<lparr>ld_CHR = 1, ld_SNP = ''rs1'', ld_N = 100, ld_block = 0, ld_block_idx = 0\<rparr>,
         \<lparr>ld_CHR = 1, ld_SNP = ''rs3'', ld_N = 100, ld_block = 2, ld_block_idx = 0\<rparr>],
        data = [Dense [[1]]], is_truncated = True, block_sizes = [1, 1],
        block_ranges = [(0, 1), (1, 2)]\<rparr> = Inl IndexError"
proof -
  let ?info = "[\<lparr>ld_CHR = 1, ld_SNP = ''rs1'', ld_N = 100, ld_block = 0, ld_block_idx = 0\<rparr>,
         \<lparr>ld_CHR = 1, ld_SNP = ''rs3'', ld_N = 100, ld_block = 2, ld_block_idx = 0\<rparr>]"
  have 1: "LDmatrix_init
     \<lparr>info_files = [''chr1'' \<mapsto> ?info], dat_files = [''chr1'' \<mapsto> [Tril [], Tril []]]\<rparr> ''chr1'' =
     Inr \<lparr>ld_info = ?info, data = [Tril [], Tril []], is_truncated = False, block_sizes = [1, 1],
        block_ranges = [(0, 1), (1, 2)]\<rparr>"
    by code_simp
  have 2: "ld_extract \<lparr>ld_info = ?info, data = [Tril [], Tril []], is_truncated = False,
        block_sizes = [1, 1], block_ranges = [(0, 1), (1, 2)]\<rparr> [''rs1'', ''rs3''] =
     (Inr (), \<lparr>ld_info = ?info, data = [Tril []], is_truncated = False, block_sizes = [1, 1],
        block_ranges = [(0, 1), (1, 2)]\<rparr>)"
    by code_simp
  have 3: "truncate (\<lambda>p i M. Inl LinAlgError)
     \<lparr>ld_info = ?info, data = [Tril []], is_truncated = False, block_sizes = [1, 1],
        block_ranges = [(0, 1), (1, 2)]\<rparr> 1 False =
     (Inr (), \<lparr>ld_info = ?info, data = [Dense [[1]]], is_truncated = True, block_sizes = [1, 1],
        block_ranges = [(0, 1), (1, 2)]\<rparr>)"
    by code_simp
  have 4: "estimate_ldscore \<lparr>ld_info = ?info, data = [Dense [[1]]], is_truncated = True,
        block_sizes = [1, 1], block_ranges = [(0, 1), (1, 2)]\<rparr> = Inl IndexError"
    by code_simp
  show ?thesis using 1 2 3 4 by (intro conjI)
qed

end
